theory Spec2Isabelle
  imports Main
begin

section \<open>Strings, numbers and the platform's string functions\<close>

text \<open>
  A JavaScript string is modelled by the bytes of its UTF-8 form (\<^typ>\<open>string\<close>), the
  form on which \<open>encodeURIComponent\<close> works: every byte outside the unreserved set is
  written as \<open>%XX\<close> with upper-case hexadecimal digits. A JavaScript number is modelled
  by an \<^typ>\<open>int\<close>: the integral values of magnitude below \<open>10^21\<close>, which the
  platform prints in plain decimal notation.
\<close>

definition isUnreserved :: "char \<Rightarrow> bool" where
  "isUnreserved c \<longleftrightarrow>
     c \<in> set ''ABCDEFGHIJKLMNOPQRSTUVWXYZabcdefghijklmnopqrstuvwxyz0123456789-_.!~*'()''"

definition hexDigit :: "nat \<Rightarrow> char" where
  "hexDigit n = ''0123456789ABCDEF'' ! n"

definition hexValue :: "char \<Rightarrow> nat option" where
  "hexValue c =
     (let n = of_char c :: nat in
      if 48 \<le> n \<and> n \<le> 57 then Some (n - 48)
      else if 65 \<le> n \<and> n \<le> 70 then Some (n - 55)
      else if 97 \<le> n \<and> n \<le> 102 then Some (n - 87)
      else None)"

definition escapeChar :: "char \<Rightarrow> string" where
  "escapeChar c =
     (if isUnreserved c then [c]
      else [CHR ''%'', hexDigit (of_char c div 16), hexDigit (of_char c mod 16)])"

definition encodeURIComponent :: "string \<Rightarrow> string" where
  "encodeURIComponent s = concat (map escapeChar s)"

text \<open>
  The reader's side of a percent-encoded text: \<open>%XY\<close> is one byte, a \<open>%\<close> that is not
  followed by two hexadecimal digits is an error, every other byte stands for itself.
\<close>

fun decodeURIComponent :: "string \<Rightarrow> string option" where
  "decodeURIComponent [] = Some []"
| "decodeURIComponent (c # cs) =
     (if c = CHR ''%'' then
        (case cs of
           a # b # rest \<Rightarrow>
             (case (hexValue a, hexValue b) of
                (Some x, Some y) \<Rightarrow>
                  map_option ((#) (char_of (16 * x + y))) (decodeURIComponent rest)
              | _ \<Rightarrow> None)
         | _ \<Rightarrow> None)
      else map_option ((#) c) (decodeURIComponent cs))"

text \<open>\<open>Array.prototype.join\<close> on an array of strings.\<close>

fun join :: "string \<Rightarrow> string list \<Rightarrow> string" where
  "join sep [] = []"
| "join sep [x] = x"
| "join sep (x # y # ys) = x @ sep @ join sep (y # ys)"

text \<open>
  \<open>String.prototype.split\<close> with a one-character separator: the empty text splits into
  one empty piece.
\<close>

fun split :: "char \<Rightarrow> string \<Rightarrow> string list" where
  "split sep [] = [ [] ]"
| "split sep (c # cs) =
     (if c = sep then [] # split sep cs
      else (case split sep cs of
              [] \<Rightarrow> [ [c] ]
            | p # ps \<Rightarrow> (c # p) # ps))"

definition digitChar :: "nat \<Rightarrow> char" where
  "digitChar n = ''0123456789'' ! n"

fun natToString :: "nat \<Rightarrow> string" where
  "natToString n =
     (if n < 10 then [digitChar n] else natToString (n div 10) @ [digitChar (n mod 10)])"

declare natToString.simps [simp del]

definition numberToString :: "int \<Rightarrow> string" where
  "numberToString i =
     (if i < 0 then CHR ''-'' # natToString (nat (- i)) else natToString (nat i))"


section \<open>Filters (\<open>src/lib/api/filtering.ts\<close>)\<close>

datatype primitive = Str string | Num int | Null

datatype regexp = RegExp (source: string) (flags: string)

definition regexpToString :: "regexp \<Rightarrow> string" where
  "regexpToString r = ''/'' @ source r @ ''/'' @ flags r"

text \<open>\<open>IsFilter = Primitive | RegExp\<close>, also the type of the operand of \<open>$ne\<close>.\<close>

datatype is_filter = Prim primitive | Pattern regexp

text \<open>
  An object filter. The three object shapes of the source (\<open>NotFilter\<close>,
  \<open>ExcludeFilter\<close>, \<open>ComparisonFilter\<close>) are told apart at run time by the keys that
  are present only, so one record with six optional keys covers them and their mixtures.
\<close>

record filter_object =
  ne :: "is_filter option"
  nin :: "primitive list option"
  gt :: "int option"
  lt :: "int option"
  gte :: "int option"
  lte :: "int option"

datatype filter =
    Is is_filter
  | Exist bool
  | Include "primitive list"
  | Object filter_object

text \<open>\<open>canEncode\<close> and \<open>encode\<close>: the array case maps \<open>encode\<close> over primitives.\<close>

fun encodePrimitive :: "primitive \<Rightarrow> primitive" where
  "encodePrimitive (Str s) = Str (encodeURIComponent s)"
| "encodePrimitive p = p"

fun encode :: "filter \<Rightarrow> filter" where
  "encode (Include xs) = Include (map encodePrimitive xs)"
| "encode (Is (Prim (Str s))) = Is (Prim (Str (encodeURIComponent s)))"
| "encode (Is (Pattern r)) = Is (Prim (Str (encodeURIComponent (regexpToString r))))"
| "encode f = f"

text \<open>
  A value inside a template literal (\<open>String(v)\<close>), and an element under
  \<open>Array.prototype.join\<close>, which prints \<open>null\<close> as the empty string.
\<close>

fun primitiveToString :: "primitive \<Rightarrow> string" where
  "primitiveToString (Str s) = s"
| "primitiveToString (Num n) = numberToString n"
| "primitiveToString Null = ''null''"

fun isFilterToString :: "is_filter \<Rightarrow> string" where
  "isFilterToString (Prim p) = primitiveToString p"
| "isFilterToString (Pattern r) = regexpToString r"

fun joinElement :: "primitive \<Rightarrow> string" where
  "joinElement Null = []"
| "joinElement p = primitiveToString p"

definition joinPrimitives :: "string \<Rightarrow> primitive list \<Rightarrow> string" where
  "joinPrimitives sep xs = join sep (map joinElement xs)"

text \<open>
  Objects are association lists in the object's own enumeration order. Assigning a
  property replaces the value of a key that is there and appends a new key otherwise;
  \<open>_.mapKeys\<close> builds its result by such assignments, \<open>_.mapValues\<close> keeps the keys.
\<close>

fun assign :: "(string \<times> 'v) list \<Rightarrow> string \<Rightarrow> 'v \<Rightarrow> (string \<times> 'v) list" where
  "assign [] k v = [(k, v)]"
| "assign ((k', v') # rest) k v =
     (if k' = k then (k, v) # rest else (k', v') # assign rest k v)"

definition mapKeys :: "('v \<Rightarrow> string \<Rightarrow> string) \<Rightarrow> (string \<times> 'v) list \<Rightarrow> (string \<times> 'v) list" where
  "mapKeys f obj = foldl (\<lambda>acc (k, v). assign acc (f v k) v) [] obj"

definition mapValues :: "('v \<Rightarrow> string \<Rightarrow> 'w) \<Rightarrow> (string \<times> 'v) list \<Rightarrow> (string \<times> 'w) list" where
  "mapValues f obj = map (\<lambda>(k, v). (k, f v k)) obj"

definition flatMap :: "('a \<Rightarrow> 'b list) \<Rightarrow> 'a list \<Rightarrow> 'b list" where
  "flatMap f xs = concat (map f xs)"

text \<open>
  The callback of \<open>flatMap\<close> in \<open>stringifyFilters\<close>, in the order of its tests. A
  returned string is one fragment; the comparison case returns an array of fragments.
  A pattern that reached the callback would be an object without any of the six keys
  (\<open>encode\<close> turns every pattern into a string before).
\<close>

definition comparisons :: "string \<Rightarrow> filter_object \<Rightarrow> string list" where
  "comparisons key value =
     (case gt value of Some n \<Rightarrow> [key @ ''>'' @ numberToString n] | None \<Rightarrow> []) @
     (case lt value of Some n \<Rightarrow> [key @ ''<'' @ numberToString n] | None \<Rightarrow> []) @
     (case gte value of Some n \<Rightarrow> [key @ ''>='' @ numberToString n] | None \<Rightarrow> []) @
     (case lte value of Some n \<Rightarrow> [key @ ''<='' @ numberToString n] | None \<Rightarrow> [])"

fun fragments :: "string \<times> filter \<Rightarrow> string list" where
  "fragments (key, Exist value) = [(if value then [] else ''!'') @ key]"
| "fragments (key, Include value) = [key @ ''='' @ joinPrimitives '','' value]"
| "fragments (key, Is (Prim value)) = [key @ ''='' @ primitiveToString value]"
| "fragments (key, Is (Pattern value)) = []"
| "fragments (key, Object value) =
     (case ne value of
        Some v \<Rightarrow> [key @ ''!='' @ isFilterToString v]
      | None \<Rightarrow>
          (case nin value of
             Some vs \<Rightarrow> [key @ ''!='' @ joinPrimitives '','' vs]
           | None \<Rightarrow> comparisons key value))"

definition filterFragments :: "(string \<times> filter) list \<Rightarrow> string list" where
  "filterFragments filters =
     flatMap fragments
       (mapValues (\<lambda>value key. encode value)
          (mapKeys (\<lambda>value key. encodeURIComponent key) filters))"

definition stringifyFilters :: "(string \<times> filter) list \<Rightarrow> string" where
  "stringifyFilters filters = join ''&'' (filterFragments filters)"

text \<open>
  The reading of an inclusion fragment that the round trip speaks of: the value part
  (after the first \<open>=\<close>) is split on commas and each piece is percent-decoded.
\<close>

definition valuePart :: "string \<Rightarrow> string" where
  "valuePart fragment = drop 1 (dropWhile (\<lambda>c. c \<noteq> CHR ''='') fragment)"

fun sequenceOptions :: "'a option list \<Rightarrow> 'a list option" where
  "sequenceOptions [] = Some []"
| "sequenceOptions (None # _) = None"
| "sequenceOptions (Some x # xs) = map_option ((#) x) (sequenceOptions xs)"

definition readInclusion :: "string \<Rightarrow> string list option" where
  "readInclusion fragment =
     sequenceOptions (map decodeURIComponent (split CHR '','' (valuePart fragment)))"

definition emptyObject :: filter_object where
  "emptyObject = \<lparr>ne = None, nin = None, gt = None, lt = None, gte = None, lte = None\<rparr>"


section \<open>The chainable interface (\<open>src/lib/api/index.ts\<close>)\<close>

text \<open>\<open>_.compact\<close>: drops the falsy elements (the empty string, zero, \<open>null\<close>).\<close>

fun truthy :: "primitive \<Rightarrow> bool" where
  "truthy (Str s) = (s \<noteq> [])"
| "truthy (Num n) = (n \<noteq> 0)"
| "truthy Null = False"

definition compact :: "primitive list \<Rightarrow> primitive list" where
  "compact xs = filter truthy xs"

datatype definition_entry = Resource resource_definition | RecordClass
  and resource_definition =
    ResourceDefinition (authenticated: "bool option") (pagination: "bool option")
      (filtering: "bool option") (sortable: "bool option") (one: one_field)
  and one_field = OneUndefined | OneBoolean bool | OneApi "(string \<times> definition_entry) list"

type_synonym api_definition = "(string \<times> definition_entry) list"

datatype abort_controller = AbortController (signal: nat)

text \<open>
  The options of a call, by the keys that the code reads. \<open>maxRetries\<close> tells a key
  that is absent (\<open>None\<close>) from a key that is present and undefined (\<open>Some None\<close>):
  the spread \<open>{ ...apiOptions, ...options }\<close> copies a present key whatever its value.
  For the other keys an undefined value and an absent key are read alike.
\<close>

record options =
  cancel :: "abort_controller option"
  maxRetries :: "int option option"
  limit :: "int option"
  page :: "int option"
  offset :: "int option"
  order :: "string option"
  filter' :: "(string \<times> filter) list option"

record create_api_options =
  nullOn404 :: "bool option"
  apiMaxRetries :: "int option"
  authenticationToken :: "string option"

datatype argument = Undefined | Id primitive | Options options

record plan =
  path :: string
  query :: string
  planCancel :: "abort_controller option"
  planNullOn404 :: bool
  planAuthenticationToken :: "string option"
  planMaxRetries :: int

definition origin :: string where
  "origin = ''https://localhost:8000''"

definition noOptions :: options where
  "noOptions = \<lparr>cancel = None, maxRetries = None, limit = None, page = None, offset = None,
     order = None, filter' = None\<rparr>"

definition omitByIsNil :: "(string \<times> primitive) list \<Rightarrow> (string \<times> primitive) list" where
  "omitByIsNil obj = filter (\<lambda>(k, v). v \<noteq> Null) obj"

fun stringifyPrimitive :: "primitive \<Rightarrow> string" where
  "stringifyPrimitive (Str s) = encodeURIComponent s"
| "stringifyPrimitive (Num n) = numberToString n"
| "stringifyPrimitive Null = []"

definition stringify :: "(string \<times> primitive) list \<Rightarrow> string" where
  "stringify obj =
     join ''&'' (map (\<lambda>(k, v). encodeURIComponent k @ ''='' @ stringifyPrimitive v) obj)"

definition numberOrUndefined :: "int option \<Rightarrow> primitive" where
  "numberOrUndefined v = (case v of None \<Rightarrow> Null | Some n \<Rightarrow> Num n)"

definition stringOrUndefined :: "string option \<Rightarrow> primitive" where
  "stringOrUndefined v = (case v of None \<Rightarrow> Null | Some s \<Rightarrow> Str s)"

definition queryObject :: "options \<Rightarrow> (string \<times> primitive) list" where
  "queryObject opts =
     omitByIsNil
       [(''limit'', numberOrUndefined (limit opts)),
        (''page'', numberOrUndefined (page opts)),
        (''offset'', numberOrUndefined (offset opts)),
        (''order'', stringOrUndefined (order opts))]"

definition composeQuery :: "options \<Rightarrow> string \<Rightarrow> string" where
  "composeQuery opts filterQuery =
     joinPrimitives ''&'' (compact [Str (stringify (queryObject opts)), Str filterQuery])"

definition filterQuery :: "options \<Rightarrow> string" where
  "filterQuery opts = stringifyFilters (case filter' opts of Some f \<Rightarrow> f | None \<Rightarrow> [])"

text \<open>
  The destructuring at the head of the interface: an object in the first position is
  the options (a second argument is then ignored); otherwise the second argument, or
  \<open>{}\<close>, is the options and the first argument is the id, \<open>''\<close> when it is undefined.
\<close>

fun callOptions :: "argument \<Rightarrow> options option \<Rightarrow> options" where
  "callOptions (Options manyOptions) baseOptions = manyOptions"
| "callOptions _ (Some baseOptions) = baseOptions"
| "callOptions _ None = noOptions"

fun callId :: "argument \<Rightarrow> primitive" where
  "callId (Id i) = i"
| "callId _ = Str []"

definition makePlan :: "string \<Rightarrow> create_api_options \<Rightarrow> argument \<Rightarrow> options option \<Rightarrow> plan" where
  "makePlan endpoint apiOptions manyOptionsOrId baseOptions =
     (let opts = callOptions manyOptionsOrId baseOptions;
          id = callId manyOptionsOrId
      in \<lparr>path = joinPrimitives ''/'' (compact [Str endpoint, id]),
          query = composeQuery opts (filterQuery opts),
          planCancel = cancel opts,
          planNullOn404 = (nullOn404 apiOptions = Some True),
          planAuthenticationToken = authenticationToken apiOptions,
          planMaxRetries =
            (case maxRetries opts of
               Some (Some n) \<Rightarrow> n
             | Some None \<Rightarrow> 10
             | None \<Rightarrow> (case apiMaxRetries apiOptions of Some n \<Rightarrow> n | None \<Rightarrow> 10))\<rparr>)"

text \<open>
  \<open>createInterface\<close> returns a function. The function value is represented by what
  it closes over (the endpoint, the definition and the global options); \<open>invoke\<close>
  below is its body.
\<close>

record interface =
  endpoint :: string
  definition' :: resource_definition
  apiOptions :: create_api_options

text \<open>
  What the interface returns: the lazy promise, represented by the \<open>plan\<close> of the request
  that awaiting it performs, with the child interfaces assigned onto it.
\<close>

record handle =
  plan :: plan
  accessors :: "(string \<times> interface) list"

definition createInterface :: "string \<Rightarrow> resource_definition \<Rightarrow> create_api_options \<Rightarrow> interface" where
  "createInterface e d apiOpts = \<lparr>endpoint = e, definition' = d, apiOptions = apiOpts\<rparr>"

definition buildApi :: "string \<Rightarrow> api_definition \<Rightarrow> create_api_options \<Rightarrow> (string \<times> interface) list" where
  "buildApi prefix def opts =
     mapValues
       (\<lambda>resourceOrDefinition key.
          (case resourceOrDefinition of
             Resource d \<Rightarrow> createInterface (prefix @ ''/'' @ key) d opts
           | RecordClass \<Rightarrow>
               createInterface (prefix @ ''/'' @ key)
                 (ResourceDefinition None (Some True) (Some True) (Some True) (OneBoolean True))
                 opts))
       def"

definition invoke :: "interface \<Rightarrow> argument \<Rightarrow> options option \<Rightarrow> handle" where
  "invoke i manyOptionsOrId baseOptions =
     (let p = makePlan (endpoint i) (apiOptions i) manyOptionsOrId baseOptions in
      \<lparr>plan = p,
       accessors =
         (case one (definition' i) of
            OneApi api \<Rightarrow> buildApi (path p) api (apiOptions i)
          | _ \<Rightarrow> [])\<rparr>)"

definition createApi :: "api_definition \<Rightarrow> create_api_options \<Rightarrow> (string \<times> interface) list" where
  "createApi def opts = buildApi [] def opts"

definition v1 :: api_definition where
  "v1 =
     [(''book'', Resource (ResourceDefinition None None None None
                   (OneApi [(''chapter'', RecordClass)]))),
      (''character'', Resource (ResourceDefinition None None None None
                   (OneApi [(''quote'', RecordClass)]))),
      (''quote'', RecordClass),
      (''chapter'', RecordClass)]"

definition noApiOptions :: create_api_options where
  "noApiOptions = \<lparr>nullOn404 = None, apiMaxRetries = None, authenticationToken = None\<rparr>"

definition accessor :: "(string \<times> 'f) list \<Rightarrow> string \<Rightarrow> 'f option" where
  "accessor api key = map_of api key"


section \<open>Errors (\<open>src/lib/api/errors.ts\<close>) and the request executor\<close>

text \<open>
  A thrown value, by what the \<open>catch\<close> block looks at: \<open>e instanceof TypeError\<close>,
  \<open>e instanceof Error\<close>, \<open>e.name\<close>, \<open>e.message\<close> and \<open>JSON.stringify(e)\<close>.
\<close>

record thrown =
  instanceofTypeError :: bool
  instanceofError :: bool
  name :: string
  message :: string
  stringified :: string

record 'j response =
  status :: int
  statusText :: string
  headers :: "string \<Rightarrow> string option"
  json :: "thrown + 'j"

definition ok :: "('j, 'x) response_scheme \<Rightarrow> bool" where
  "ok r \<longleftrightarrow> 200 \<le> status r \<and> status r \<le> 299"

datatype 'j api_error =
    ApiError int string "'j response" 'j
  | MaxRetriesExceededError int string "'j response" 'j
  | AbortError string
  | NetworkError string
  | UnknownError string

text \<open>The settled promise; \<open>Resolved None\<close> is \<open>resolve(null)\<close>.\<close>

datatype 'j settled = Resolved "'j option" | Rejected "'j api_error"

record request =
  url :: string
  requestSignal :: "nat option"
  requestHeaders :: "(string \<times> string) list"

definition planRequest :: "plan \<Rightarrow> request" where
  "planRequest p =
     \<lparr>url = origin @ ''/'' @ path p @ ''?'' @ query p,
      requestSignal = map_option signal (planCancel p),
      requestHeaders =
        [(''Content-Type'', ''application/json''), (''Accept'', ''application/json'')] @
        (case planAuthenticationToken p of
           Some token \<Rightarrow> (if token \<noteq> [] then [(''Authorization'', ''Bearer '' @ token)] else [])
         | None \<Rightarrow> [])\<rparr>"

text \<open>
  The \<open>backo2\<close> package (a dependency, not part of the repository), with its default
  factor 2 and no jitter: \<open>duration()\<close> returns \<open>min * 2 ^ attempts\<close> capped at
  \<open>max\<close>, in milliseconds, and counts the attempt.
\<close>

record backoff =
  ms :: nat
  maxMs :: nat
  attempts :: nat

definition Backoff :: "nat \<Rightarrow> nat \<Rightarrow> backoff" where
  "Backoff mn mx = \<lparr>ms = mn, maxMs = mx, attempts = 0\<rparr>"

definition duration :: "backoff \<Rightarrow> nat \<times> backoff" where
  "duration b = (min (ms b * 2 ^ attempts b) (maxMs b), b\<lparr>attempts := Suc (attempts b)\<rparr>)"

text \<open>
  The argument of \<open>setTimeout\<close>, in milliseconds: \<open>+(header)\<close>, the number that the
  header's text converts to (\<open>NaN\<close> for a text that is not numeric), or a duration of
  the backoff.
\<close>

datatype delay = FromHeader string | FromBackoff nat

definition retryAfter :: "('j, 'x) response_scheme \<Rightarrow> backoff \<Rightarrow> delay \<times> backoff" where
  "retryAfter r b =
     (case headers r ''Retry-After'' of
        Some h \<Rightarrow> (if h \<noteq> [] then (FromHeader h, b)
                   else (FromBackoff (fst (duration b)), snd (duration b)))
      | None \<Rightarrow> (FromBackoff (fst (duration b)), snd (duration b)))"

definition classify :: "thrown \<Rightarrow> 'j api_error" where
  "classify e =
     (if instanceofTypeError e then NetworkError (message e)
      else if instanceofError e \<and> name e = ''AbortError'' then AbortError (message e)
      else UnknownError (stringified e))"

text \<open>
  A run of the executor: how the promise settles, how many times \<open>fetch\<close> was called,
  and the delays waited in order. The transport is a parameter: \<open>fetch req n\<close> is the
  outcome of the \<open>n\<close>-th call of \<open>fetch\<close>, counted from 0, a thrown value or a
  response; \<open>json\<close> of a response is the outcome of \<open>response.json()\<close>. The loop
  variable \<open>retries\<close> is the number of calls made before.
\<close>

record 'j run =
  settled :: "'j settled"
  fetches :: nat
  delays :: "delay list"

definition settle :: "'j settled \<Rightarrow> 'j run" where
  "settle s = \<lparr>settled = s, fetches = 1, delays = []\<rparr>"

definition afterDelay :: "delay \<Rightarrow> 'j run \<Rightarrow> 'j run" where
  "afterDelay d r = r\<lparr>fetches := Suc (fetches r), delays := d # delays r\<rparr>"

function executeLoop ::
  "(request \<Rightarrow> nat \<Rightarrow> thrown + 'j response) \<Rightarrow> plan \<Rightarrow> nat \<Rightarrow> backoff \<Rightarrow> 'j run"
where
  "executeLoop fetch p retries b =
     (case fetch (planRequest p) retries of
        Inl e \<Rightarrow> settle (Rejected (classify e))
      | Inr response \<Rightarrow>
          (case json response of
             Inl e \<Rightarrow> settle (Rejected (classify e))
           | Inr body \<Rightarrow>
               if ok response then settle (Resolved (Some body))
               else if status response = 404 \<and> planNullOn404 p then settle (Resolved None)
               else if status response = 429 then
                 (if int (Suc retries) \<le> planMaxRetries p
                  then afterDelay (fst (retryAfter response b))
                         (executeLoop fetch p (Suc retries) (snd (retryAfter response b)))
                  else \<lparr>settled = Rejected (MaxRetriesExceededError (status response)
                                      (statusText response) response body),
                        fetches = 1, delays = [fst (retryAfter response b)]\<rparr>)
               else settle (Rejected (ApiError (status response) (statusText response)
                                        response body))))"
  by pat_completeness auto
termination
  by (relation "measure (\<lambda>(fetch, p, retries, b). nat (planMaxRetries p) - retries)") auto

declare executeLoop.simps [simp del]

definition executeRequest ::
  "(request \<Rightarrow> nat \<Rightarrow> thrown + 'j response) \<Rightarrow> plan \<Rightarrow> 'j run" where
  "executeRequest fetch p = executeLoop fetch p 0 (Backoff 100 20000)"

text \<open>
  \<open>Response.prototype.json\<close> on a text body: a JSON text begins, after white space,
  with \<open>{\<close>, \<open>[\<close>, \<open>"\<close>, \<open>-\<close>, a digit, or the first letter of \<open>true\<close>,
  \<open>false\<close> or \<open>null\<close>; any other text is rejected with a \<open>SyntaxError\<close>. The rest
  of the grammar is the parameter \<open>grammar\<close>.
\<close>

definition jsonWhitespace :: "char \<Rightarrow> bool" where
  "jsonWhitespace c \<longleftrightarrow> c \<in> set [CHR '' '', CHR 0x09, CHR 0x0A, CHR 0x0D]"

definition jsonStart :: "char \<Rightarrow> bool" where
  "jsonStart c \<longleftrightarrow> c \<in> set ''{[\"-0123456789tfn''"

definition SyntaxError :: "string \<Rightarrow> thrown" where
  "SyntaxError m =
     \<lparr>instanceofTypeError = False, instanceofError = True, name = ''SyntaxError'',
      message = m, stringified = ''{}''\<rparr>"

definition parseJson :: "(string \<Rightarrow> 'j option) \<Rightarrow> string \<Rightarrow> thrown + 'j" where
  "parseJson grammar text =
     (case dropWhile jsonWhitespace text of
        [] \<Rightarrow> Inl (SyntaxError ''Unexpected end of JSON input'')
      | c # _ \<Rightarrow>
          if jsonStart c then
            (case grammar text of
               Some j \<Rightarrow> Inr j
             | None \<Rightarrow> Inl (SyntaxError ''Unexpected token''))
          else Inl (SyntaxError ''Unexpected token''))"

text \<open>\<open>new Response(body, { status })\<close> and the stand-in for \<open>fetch\<close>.\<close>

definition Response :: "(string \<Rightarrow> 'j option) \<Rightarrow> string \<Rightarrow> int \<Rightarrow> 'j response" where
  "Response grammar body st =
     \<lparr>status = st, statusText = [],
      headers = (\<lambda>name. if name = ''content-type'' then Some ''text/plain;charset=UTF-8'' else None),
      json = parseJson grammar body\<rparr>"

definition testFetch :: "(string \<Rightarrow> 'j option) \<Rightarrow> request \<Rightarrow> nat \<Rightarrow> thrown + 'j response" where
  "testFetch grammar req n = Inr (Response grammar (url req) 200)"


section \<open>Runs of the executor: vocabulary and sample transports\<close>

text \<open>
  An attempt is throttled when \<open>fetch\<close> returns a response of status 429 whose body
  parses. \<open>expectedDelays\<close> states the choice of the delays from the \<open>Retry-After\<close>
  headers of the throttled responses in order, \<open>k\<close> counting the draws from the backoff.
\<close>

definition throttled :: "(request \<Rightarrow> nat \<Rightarrow> thrown + 'j response) \<Rightarrow> plan \<Rightarrow> nat \<Rightarrow> bool" where
  "throttled fetch p i =
     (case fetch (planRequest p) i of
        Inl e \<Rightarrow> False
      | Inr r \<Rightarrow> status r = 429 \<and> (case json r of Inl e \<Rightarrow> False | Inr body \<Rightarrow> True))"

definition retryAfterHeader :: "thrown + 'j response \<Rightarrow> string option" where
  "retryAfterHeader outcome =
     (case outcome of Inl e \<Rightarrow> None | Inr r \<Rightarrow> headers r ''Retry-After'')"

fun expectedDelays :: "string option list \<Rightarrow> nat \<Rightarrow> delay list" where
  "expectedDelays [] k = []"
| "expectedDelays (Some h # hs) k =
     (if h \<noteq> [] then FromHeader h # expectedDelays hs k
      else FromBackoff (min (100 * 2 ^ k) 20000) # expectedDelays hs (Suc k))"
| "expectedDelays (None # hs) k = FromBackoff (min (100 * 2 ^ k) 20000) # expectedDelays hs (Suc k)"

text \<open>Sample responses, plans and transports.\<close>

definition respond ::
  "int \<Rightarrow> string \<Rightarrow> (string \<times> string) list \<Rightarrow> string \<Rightarrow> thrown + string response" where
  "respond st txt hs body =
     Inr \<lparr>status = st, statusText = txt, headers = map_of hs, json = Inr body\<rparr>"

definition bookPlan :: "int \<Rightarrow> bool \<Rightarrow> plan" where
  "bookPlan n nullOnNotFound =
     plan (invoke
       (createInterface ''/book'' (ResourceDefinition None None None None OneUndefined)
          \<lparr>nullOn404 = Some nullOnNotFound, apiMaxRetries = Some n, authenticationToken = None\<rparr>)
       (Id (Num 1)) None)"

definition throttledThen :: "nat \<Rightarrow> thrown + string response \<Rightarrow> request \<Rightarrow> nat \<Rightarrow> thrown + string response" where
  "throttledThen k final req n =
     (if n < k then respond 429 ''Too Many Requests'' [(''Retry-After'', ''1'')] ''{}'' else final)"


definition datedThenPlain :: "request \<Rightarrow> nat \<Rightarrow> thrown + string response" where
  "datedThenPlain req n =
     (if n = 0 then
        respond 429 ''Too Many Requests'' [(''Retry-After'', ''Wed, 21 Oct 2015 07:28:00 GMT'')] ''{}''
      else if n = 1 then respond 429 ''Too Many Requests'' [] ''{}''
      else respond 200 ''OK'' [] ''[]'')"

text \<open>
  The pagination and sort pairs in the words of the specification: the fields that are
  present, as \<open>key=value\<close>, in the order limit, page, offset, order.
\<close>

definition paginationFields :: "options \<Rightarrow> string list" where
  "paginationFields opts =
     [k @ ''='' @ v.
        (k, Some v) \<leftarrow>
          [(''limit'', map_option numberToString (limit opts)),
           (''page'', map_option numberToString (page opts)),
           (''offset'', map_option numberToString (offset opts)),
           (''order'', map_option encodeURIComponent (order opts))]]"

definition endsWithAmpersand :: "string \<Rightarrow> bool" where
  "endsWithAmpersand s \<longleftrightarrow> s \<noteq> [] \<and> last s = CHR ''&''"

text \<open>
  \<open>api.parent(id).child()\<close> on an API created without options: the path of the request
  that awaiting the result performs.
\<close>

definition chained :: "api_definition \<Rightarrow> string \<Rightarrow> primitive \<Rightarrow> string \<Rightarrow> string option" where
  "chained def parent i child =
     (case accessor (createApi def noApiOptions) parent of
        None \<Rightarrow> None
      | Some parentInterface \<Rightarrow>
          (case accessor (accessors (invoke parentInterface (Id i) None)) child of
             None \<Rightarrow> None
           | Some childInterface \<Rightarrow> Some (path (plan (invoke childInterface Undefined None)))))"


section \<open>Percent-encoding: decoding inverts encoding\<close>

lemma less_16_cases:
  "(n::nat) < 16 \<Longrightarrow> n \<in> {0, 1, 2, 3, 4, 5, 6, 7, 8, 9, 10, 11, 12, 13, 14, 15}"
  by (simp add: numeral_eq_Suc less_Suc_eq)

lemma hexValue_hexDigit: "n < 16 \<Longrightarrow> hexValue (hexDigit n) = Some n"
  by (drule less_16_cases) (auto simp: hexValue_def hexDigit_def)

lemma percent_reserved: "\<not> isUnreserved CHR ''%''"
  by (simp add: isUnreserved_def)

lemma decode_escapeChar:
  "decodeURIComponent (escapeChar c @ rest) = map_option ((#) c) (decodeURIComponent rest)"
proof (cases "isUnreserved c")
  case True
  then have "c \<noteq> CHR ''%''"
    using percent_reserved by auto
  with True show ?thesis
    by (simp add: escapeChar_def)
next
  case False
  have "(of_char c :: nat) < 256"
    by simp
  then have "(of_char c :: nat) div 16 < 16" "(of_char c :: nat) mod 16 < 16"
    by arith+
  moreover have "char_of (16 * ((of_char c :: nat) div 16) + (of_char c :: nat) mod 16) = c"
    by simp
  ultimately show ?thesis
    using False by (simp add: escapeChar_def hexValue_hexDigit)
qed

lemma decode_encode: "decodeURIComponent (encodeURIComponent s) = Some s"
  by (induction s) (simp_all add: encodeURIComponent_def decode_escapeChar)

lemma encodeURIComponent_inj:
  "encodeURIComponent s = encodeURIComponent t \<Longrightarrow> s = t"
  by (metis decode_encode option.inject)

section \<open>The filter encoder\<close>

lemma assign_fresh: "k \<notin> fst ` set obj \<Longrightarrow> assign obj k v = obj @ [(k, v)]"
  by (induction obj) auto

lemma foldl_assign_inj:
  "distinct (map fst acc @ map (\<lambda>e. g (fst e)) obj) \<Longrightarrow>
   foldl (\<lambda>acc (k, v). assign acc (g k) v) acc obj = acc @ map (\<lambda>e. (g (fst e), snd e)) obj"
proof (induction obj arbitrary: acc)
  case Nil
  then show ?case by simp
next
  case (Cons e obj)
  obtain k v where e: "e = (k, v)" by (cases e)
  from Cons.prems have fresh: "g k \<notin> fst ` set acc"
    by (auto simp: e)
  from Cons.prems have "distinct (map fst (acc @ [(g k, v)]) @ map (\<lambda>e. g (fst e)) obj)"
    by (auto simp: e)
  from Cons.IH[OF this] show ?case
    by (simp add: e assign_fresh[OF fresh])
qed

lemma mapKeys_encode:
  assumes "distinct (map fst obj)"
  shows "mapKeys (\<lambda>value key. encodeURIComponent key) obj =
         map (\<lambda>e. (encodeURIComponent (fst e), snd e)) obj"
proof -
  have "distinct (map encodeURIComponent (map fst obj))"
    using assms encodeURIComponent_inj by (simp add: distinct_map inj_on_def)
  then have "distinct (map fst [] @ map (\<lambda>e. encodeURIComponent (fst e)) obj)"
    by (simp add: comp_def)
  from foldl_assign_inj[OF this] show ?thesis
    by (simp add: mapKeys_def)
qed

lemma filterFragments_distinct:
  "distinct (map fst filters) \<Longrightarrow>
   filterFragments filters =
     concat (map (\<lambda>e. fragments (encodeURIComponent (fst e), encode (snd e))) filters)"
  by (simp add: filterFragments_def mapKeys_encode mapValues_def flatMap_def comp_def)

lemma filterFragments_single:
  "filterFragments [(k, v)] = fragments (encodeURIComponent k, encode v)"
  by (simp add: filterFragments_distinct)

lemma split_no_sep: "sep \<notin> set p \<Longrightarrow> split sep p = [p]"
  by (induction p) auto

lemma split_append_sep:
  "sep \<notin> set p \<Longrightarrow> split sep (p @ sep # rest) = p # split sep rest"
  by (induction p) auto

lemma split_join:
  "ps \<noteq> [] \<Longrightarrow> \<forall>p \<in> set ps. sep \<notin> set p \<Longrightarrow> split sep (join [sep] ps) = ps"
proof (induction "[sep]" ps rule: join.induct)
  case 1
  then show ?case by simp
next
  case (2 x)
  then show ?case by (simp add: split_no_sep)
next
  case (3 x y ys)
  then show ?case by (simp add: split_append_sep)
qed

lemma hexDigit_unreserved: "n < 16 \<Longrightarrow> isUnreserved (hexDigit n)"
  by (drule less_16_cases) (auto simp: isUnreserved_def hexDigit_def)

lemma escapeChar_chars:
  assumes "\<not> isUnreserved x" and "x \<noteq> CHR ''%''"
  shows "x \<notin> set (escapeChar c)"
proof -
  have "(of_char c :: nat) < 256" by simp
  then have "(of_char c :: nat) div 16 < 16" "(of_char c :: nat) mod 16 < 16"
    by arith+
  then have "isUnreserved (hexDigit (of_char c div 16))" "isUnreserved (hexDigit (of_char c mod 16))"
    by (simp_all add: hexDigit_unreserved)
  with assms show ?thesis
    by (auto simp: escapeChar_def)
qed

lemma encodeURIComponent_chars:
  "\<not> isUnreserved x \<Longrightarrow> x \<noteq> CHR ''%'' \<Longrightarrow> x \<notin> set (encodeURIComponent s)"
  using escapeChar_chars by (auto simp: encodeURIComponent_def)

lemma comma_not_encoded: "CHR '','' \<notin> set (encodeURIComponent s)"
  by (rule encodeURIComponent_chars) (simp_all add: isUnreserved_def)

lemma equals_not_encoded: "CHR ''='' \<notin> set (encodeURIComponent s)"
  by (rule encodeURIComponent_chars) (simp_all add: isUnreserved_def)

lemma digitChar_unreserved: "n < 10 \<Longrightarrow> isUnreserved (digitChar n)"
proof -
  assume "n < 10"
  then have "n \<in> {0, 1, 2, 3, 4, 5, 6, 7, 8, 9}"
    by (simp add: numeral_eq_Suc less_Suc_eq)
  then show ?thesis
    by (auto simp: isUnreserved_def digitChar_def)
qed

lemma natToString_unreserved: "c \<in> set (natToString n) \<Longrightarrow> isUnreserved c"
proof (induction n rule: natToString.induct)
  case (1 n)
  show ?case
  proof (cases "n < 10")
    case True
    then have "natToString n = [digitChar n]"
      by (subst natToString.simps) simp
    with True "1.prems" show ?thesis
      by (simp add: digitChar_unreserved)
  next
    case False
    then have eq: "natToString n = natToString (n div 10) @ [digitChar (n mod 10)]"
      by (subst natToString.simps) simp
    have "isUnreserved (digitChar (n mod 10))"
      by (rule digitChar_unreserved) simp
    with "1.prems" "1.IH"[OF False] show ?thesis
      unfolding eq by auto
  qed
qed

lemma numberToString_unreserved: "c \<in> set (numberToString i) \<Longrightarrow> isUnreserved c"
proof -
  assume c: "c \<in> set (numberToString i)"
  have "isUnreserved CHR ''-''"
    by (simp add: isUnreserved_def)
  with c show ?thesis
    by (auto simp: numberToString_def natToString_unreserved split: if_splits)
qed

lemma comma_reserved: "\<not> isUnreserved CHR '',''"
  by (simp add: isUnreserved_def)

lemma decode_plain: "CHR ''%'' \<notin> set s \<Longrightarrow> decodeURIComponent s = Some s"
  by (induction s) auto

lemma joinElement_encode_comma: "CHR '','' \<notin> set (joinElement (encodePrimitive p))"
proof (cases p)
  case (Str s)
  then show ?thesis by (simp add: comma_not_encoded)
next
  case (Num n)
  then show ?thesis
    using numberToString_unreserved[of "CHR '',''" n] comma_reserved by auto
next
  case Null
  then show ?thesis by simp
qed

lemma joinElement_encode_decode:
  "decodeURIComponent (joinElement (encodePrimitive p)) = Some (joinElement p)"
proof (cases p)
  case (Str s)
  then show ?thesis by (simp add: decode_encode)
next
  case (Num n)
  have "CHR ''%'' \<notin> set (numberToString n)"
    using numberToString_unreserved[of "CHR ''%''" n] percent_reserved by auto
  with Num show ?thesis by (simp add: decode_plain)
next
  case Null
  then show ?thesis by simp
qed

lemma sequenceOptions_decode:
  "sequenceOptions (map (\<lambda>p. decodeURIComponent (joinElement (encodePrimitive p))) xs) =
   Some (map joinElement xs)"
  by (induction xs) (simp_all add: joinElement_encode_decode)

lemma valuePart_fragment:
  "valuePart (encodeURIComponent k @ CHR ''='' # rest) = rest"
proof -
  have "dropWhile (\<lambda>c. c \<noteq> CHR ''='') (encodeURIComponent k @ CHR ''='' # rest) =
        dropWhile (\<lambda>c. c \<noteq> CHR ''='') (CHR ''='' # rest)"
    by (rule dropWhile_append2) (use equals_not_encoded in auto)
  then show ?thesis by (simp add: valuePart_def)
qed

lemma stringifyFilters_include:
  "stringifyFilters [(k, Include xs)] =
   encodeURIComponent k @ ''='' @ join '','' (map (joinElement \<circ> encodePrimitive) xs)"
  by (simp add: stringifyFilters_def filterFragments_single joinPrimitives_def)

lemma readInclusion_include:
  assumes "xs \<noteq> []"
  shows "readInclusion (stringifyFilters [(k, Include xs)]) = Some (map joinElement xs)"
proof -
  let ?ps = "map (joinElement \<circ> encodePrimitive) xs"
  have "?ps \<noteq> []" using assms by simp
  moreover have "\<forall>p \<in> set ?ps. CHR '','' \<notin> set p"
    using joinElement_encode_comma by auto
  ultimately have "split CHR '','' (join '','' ?ps) = ?ps"
    using split_join[of ?ps "CHR '',''"] by simp
  then show ?thesis
    by (simp add: readInclusion_def stringifyFilters_include valuePart_fragment
        sequenceOptions_decode comp_def)
qed


text \<open>
  C3. The negation form \<open>{$ne: v}\<close>: \<open>encode\<close> leaves an object filter as it is, so
  the operand of \<open>$ne\<close> is written in its plain text, whatever it is. For
  \<open>{ name: { $ne: 'abc' } }\<close> the fragment is \<open>name!=abc\<close>; for
  \<open>{ name: { $ne: 'a b' } }\<close> it is \<open>name!=a b\<close>, where the percent-encoded operand
  would be \<open>a%20b\<close>; a pattern \<open>/abc/i\<close> is written \<open>/abc/i\<close>, where its
  percent-encoded text would be \<open>%2Fabc%2Fi\<close>.
\<close>

theorem negation_operand_not_encoded:
  "stringifyFilters
     [(field, Object \<lparr>ne = Some v, nin = a, gt = b, lt = c, gte = d, lte = e\<rparr>)] =
     encodeURIComponent field @ ''!='' @ isFilterToString v
   \<and> stringifyFilters [(''name'', Object (emptyObject\<lparr>ne := Some (Prim (Str ''abc''))\<rparr>))] =
       ''name!=abc''
   \<and> stringifyFilters [(''name'', Object (emptyObject\<lparr>ne := Some (Prim (Str ''a b''))\<rparr>))] =
       ''name!=a b''
   \<and> encodeURIComponent ''a b'' = ''a%20b''
   \<and> stringifyFilters
       [(''name'', Object (emptyObject\<lparr>ne := Some (Pattern (RegExp ''abc'' ''i''))\<rparr>))] =
       ''name!=/abc/i''
   \<and> encodeURIComponent (regexpToString (RegExp ''abc'' ''i'')) = ''%2Fabc%2Fi''"
proof -
  have enc: "encodeURIComponent ''name'' = ''name''" "encodeURIComponent ''a b'' = ''a%20b''"
    "encodeURIComponent ''/abc/i'' = ''%2Fabc%2Fi''"
    by code_simp+
  show ?thesis
    by (simp add: stringifyFilters_def filterFragments_single emptyObject_def enc
        regexpToString_def)
qed

text \<open>
  C8. A numeric-comparison filter (an object filter without the keys \<open>$ne\<close> and
  \<open>$nin\<close>) anywhere in a filter map contributes one fragment \<open>field<op>value\<close> for
  each bound that is present, in the order \<open>>\<close>, \<open><\<close>, \<open>>=\<close>, \<open><=\<close>, each a
  fragment of its own among the fragments of the other fields, whatever bounds are
  combined, and the returned string is these fragments joined by \<open>&\<close> like all others:
  a filter map of one comparison filter is encoded as its fragments joined by \<open>&\<close>.
  \<open>{ words: { $gt: 20 } }\<close> is encoded as \<open>words>20\<close>, and a filter with all four
  bounds as \<open>words>1&words<2&words>=3&words<=4\<close>.
\<close>

theorem comparison_fragments:
  assumes "distinct (map fst (before @ (field, Object cmp) # after))"
    and "ne cmp = None" and "nin cmp = None"
  shows "filterFragments (before @ (field, Object cmp) # after) =
           filterFragments before @
           [encodeURIComponent field @ op @ numberToString n.
              (op, Some n) \<leftarrow> [(''>'', gt cmp), (''<'', lt cmp), (''>='', gte cmp), (''<='', lte cmp)]] @
           filterFragments after
         \<and> stringifyFilters (before @ (field, Object cmp) # after) =
           join ''&''
             (filterFragments before @
              [encodeURIComponent field @ op @ numberToString n.
                 (op, Some n) \<leftarrow> [(''>'', gt cmp), (''<'', lt cmp), (''>='', gte cmp), (''<='', lte cmp)]] @
              filterFragments after)
         \<and> stringifyFilters [(field, Object cmp)] =
           join ''&''
             [encodeURIComponent field @ op @ numberToString n.
                (op, Some n) \<leftarrow> [(''>'', gt cmp), (''<'', lt cmp), (''>='', gte cmp), (''<='', lte cmp)]]
         \<and> stringifyFilters [(''words'', Object (emptyObject\<lparr>gt := Some 20\<rparr>))] = ''words>20''
         \<and> stringifyFilters
             [(''words'', Object \<lparr>ne = None, nin = None, gt = Some 1, lt = Some 2,
                                 gte = Some 3, lte = Some 4\<rparr>)] =
           ''words>1&words<2&words>=3&words<=4''"
proof -
  let ?bounds = "[encodeURIComponent field @ op @ numberToString n.
      (op, Some n) \<leftarrow> [(''>'', gt cmp), (''<'', lt cmp), (''>='', gte cmp), (''<='', lte cmp)]]"
  from assms(1) have d: "distinct (map fst before)" "distinct (map fst after)"
    by simp_all
  have own: "fragments (encodeURIComponent field, encode (Object cmp)) = ?bounds"
    using assms(2,3) by (simp add: comparisons_def split: option.splits)
  then have parts: "filterFragments (before @ (field, Object cmp) # after) =
           filterFragments before @ ?bounds @ filterFragments after"
    by (simp add: filterFragments_distinct[OF assms(1)] filterFragments_distinct[OF d(1)]
        filterFragments_distinct[OF d(2)])
  then have whole: "stringifyFilters (before @ (field, Object cmp) # after) =
           join ''&'' (filterFragments before @ ?bounds @ filterFragments after)"
    by (simp only: stringifyFilters_def)
  have single: "stringifyFilters [(field, Object cmp)] = join ''&'' ?bounds"
    using own by (simp only: stringifyFilters_def filterFragments_single)
  have enc: "encodeURIComponent ''words'' = ''words''" "numberToString 20 = ''20''"
    "numberToString 1 = ''1''" "numberToString 2 = ''2''" "numberToString 3 = ''3''"
    "numberToString 4 = ''4''"
    by code_simp+
  then have twenty: "stringifyFilters [(''words'', Object (emptyObject\<lparr>gt := Some 20\<rparr>))] = ''words>20''"
    by (simp add: stringifyFilters_def filterFragments_single emptyObject_def comparisons_def)
  from enc have four: "stringifyFilters
             [(''words'', Object \<lparr>ne = None, nin = None, gt = Some 1, lt = Some 2,
                                 gte = Some 3, lte = Some 4\<rparr>)] =
           ''words>1&words<2&words>=3&words<=4''"
    by (simp add: stringifyFilters_def filterFragments_single comparisons_def)
  from parts whole single twenty four show ?thesis
    by blast
qed

theorem comparison_fragments_witness:
  "distinct (map fst ([(''name'', Exist True)] @
     (''words'', Object (emptyObject\<lparr>lt := Some 30, gte := Some 20\<rparr>)) # [(''id'', Is (Prim (Num 7)))]))
   \<and> filterFragments ([(''name'', Exist True)] @
     (''words'', Object (emptyObject\<lparr>lt := Some 30, gte := Some 20\<rparr>)) # [(''id'', Is (Prim (Num 7)))]) =
     [''name'', ''words<30'', ''words>=20'', ''id=7'']
   \<and> stringifyFilters ([(''name'', Exist True)] @
     (''words'', Object (emptyObject\<lparr>lt := Some 30, gte := Some 20\<rparr>)) # [(''id'', Is (Prim (Num 7)))]) =
     ''name&words<30&words>=20&id=7''
   \<and> stringifyFilters [(''words'', Object (emptyObject\<lparr>lt := Some 30, gte := Some 20\<rparr>))] =
     ''words<30&words>=20''"
proof -
  let ?cmp = "emptyObject\<lparr>lt := Some 30, gte := Some 20\<rparr>"
  have d: "distinct (map fst ([(''name'', Exist True)] @ (''words'', Object ?cmp) # [(''id'', Is (Prim (Num 7)))]))"
    by simp
  have n: "ne ?cmp = None" "nin ?cmp = None"
    by (simp_all add: emptyObject_def)
  have enc: "encodeURIComponent ''words'' = ''words''" "encodeURIComponent ''name'' = ''name''"
    "encodeURIComponent ''id'' = ''id''"
    "numberToString 30 = ''30''" "numberToString 20 = ''20''" "numberToString 7 = ''7''"
    by code_simp+
  note c = comparison_fragments[OF d n]
  have parts: "filterFragments ([(''name'', Exist True)] @ (''words'', Object ?cmp) #
      [(''id'', Is (Prim (Num 7)))]) = [''name'', ''words<30'', ''words>=20'', ''id=7'']"
    using c[THEN conjunct1] by (simp add: filterFragments_single emptyObject_def enc)
  have whole: "stringifyFilters ([(''name'', Exist True)] @ (''words'', Object ?cmp) #
      [(''id'', Is (Prim (Num 7)))]) = ''name&words<30&words>=20&id=7''"
    using c[THEN conjunct2, THEN conjunct1]
    by (simp add: filterFragments_single emptyObject_def enc)
  have single: "stringifyFilters [(''words'', Object ?cmp)] = ''words<30&words>=20''"
    using c[THEN conjunct2, THEN conjunct2, THEN conjunct1]
    by (simp add: emptyObject_def enc)
  from d parts whole single show ?thesis
    by blast
qed

text \<open>
  C9, as the claim states it, fails for the empty list: \<open>{ name: [] }\<close> is encoded as
  \<open>name=\<close>, whose empty value part splits into one empty piece, not into no piece.
\<close>

theorem inclusion_roundtrip_counterexample:
  "stringifyFilters [(''name'', Include [])] = ''name=''
   \<and> readInclusion (stringifyFilters [(''name'', Include [])]) = Some [ [] ]
   \<and> readInclusion (stringifyFilters [(''name'', Include [])]) \<noteq> Some []"
proof -
  have "encodeURIComponent ''name'' = ''name''"
    by code_simp
  then have "stringifyFilters [(''name'', Include [])] = ''name=''"
    by (simp add: stringifyFilters_def filterFragments_single joinPrimitives_def)
  then show ?thesis
    by (simp add: readInclusion_def valuePart_def)
qed

text \<open>
  C9, amended. For every non-empty inclusion list the fragment is the encoded field,
  \<open>=\<close>, and the elements joined by commas, each string percent-encoded on its own (a
  number in decimal, \<open>null\<close> as the empty text); splitting the value part on commas and
  percent-decoding each piece gives back the elements' texts in order, which for a list
  of strings is the list itself.
\<close>

theorem inclusion_roundtrip:
  assumes "xs \<noteq> []"
  shows "stringifyFilters [(field, Include xs)] =
           encodeURIComponent field @ ''='' @ join '','' (map (joinElement \<circ> encodePrimitive) xs)
         \<and> readInclusion (stringifyFilters [(field, Include xs)]) = Some (map joinElement xs)
         \<and> (\<forall>ss. xs = map Str ss \<longrightarrow>
               stringifyFilters [(field, Include xs)] =
                 encodeURIComponent field @ ''='' @ join '','' (map encodeURIComponent ss)
               \<and> readInclusion (stringifyFilters [(field, Include xs)]) = Some ss)"
proof -
  have form: "stringifyFilters [(field, Include xs)] =
      encodeURIComponent field @ ''='' @ join '','' (map (joinElement \<circ> encodePrimitive) xs)"
    by (rule stringifyFilters_include)
  have reading: "readInclusion (stringifyFilters [(field, Include xs)]) = Some (map joinElement xs)"
    using assms by (rule readInclusion_include)
  have strings: "stringifyFilters [(field, Include xs)] =
        encodeURIComponent field @ ''='' @ join '','' (map encodeURIComponent ss)
      \<and> readInclusion (stringifyFilters [(field, Include xs)]) = Some ss"
    if "xs = map Str ss" for ss
  proof -
    have "map (joinElement \<circ> encodePrimitive) xs = map encodeURIComponent ss"
      by (simp add: that)
    moreover have "map joinElement xs = ss"
      unfolding that by (induction ss) simp_all
    ultimately show ?thesis
      using form reading by simp
  qed
  from form reading strings show ?thesis
    by blast
qed

theorem inclusion_roundtrip_witness:
  "[Str ''a,b'', Str ''c d''] \<noteq> []
   \<and> stringifyFilters [(''name'', Include [Str ''a,b'', Str ''c d''])] = ''name=a%2Cb,c%20d''
   \<and> readInclusion (stringifyFilters [(''name'', Include [Str ''a,b'', Str ''c d''])]) =
       Some [''a,b'', ''c d'']"
proof -
  have enc: "encodeURIComponent ''name'' = ''name''" "encodeURIComponent ''a,b'' = ''a%2Cb''"
    "encodeURIComponent ''c d'' = ''c%20d''"
    by code_simp+
  have ne: "[Str ''a,b'', Str ''c d''] \<noteq> []"
    by simp
  note r = inclusion_roundtrip[OF ne, of "''name''"]
  have form: "stringifyFilters [(''name'', Include [Str ''a,b'', Str ''c d''])] = ''name=a%2Cb,c%20d''"
    using r[THEN conjunct1] by (simp add: enc)
  have reading: "readInclusion (stringifyFilters [(''name'', Include [Str ''a,b'', Str ''c d''])]) =
      Some [''a,b'', ''c d'']"
    using r[THEN conjunct2, THEN conjunct1] by simp
  from ne form reading show ?thesis
    by blast
qed


section \<open>The request executor\<close>

lemma throttledE:
  assumes "throttled fetch p i"
  obtains r body where "fetch (planRequest p) i = Inr r" "status r = 429" "json r = Inr body"
  using assms by (auto simp: throttled_def split: sum.splits)

lemma executeLoop_thrown:
  "fetch (planRequest p) i = Inl e \<Longrightarrow> executeLoop fetch p i b = settle (Rejected (classify e))"
  by (subst executeLoop.simps) simp

lemma executeLoop_json_thrown:
  "fetch (planRequest p) i = Inr r \<Longrightarrow> json r = Inl e \<Longrightarrow>
   executeLoop fetch p i b = settle (Rejected (classify e))"
  by (subst executeLoop.simps) simp

lemma executeLoop_ok:
  "fetch (planRequest p) i = Inr r \<Longrightarrow> json r = Inr body \<Longrightarrow> ok r \<Longrightarrow>
   executeLoop fetch p i b = settle (Resolved (Some body))"
  by (subst executeLoop.simps) simp

lemma executeLoop_null:
  "fetch (planRequest p) i = Inr r \<Longrightarrow> json r = Inr body \<Longrightarrow> status r = 404 \<Longrightarrow> planNullOn404 p \<Longrightarrow>
   executeLoop fetch p i b = settle (Resolved None)"
  by (subst executeLoop.simps) (simp add: ok_def)

lemma executeLoop_retry:
  "fetch (planRequest p) i = Inr r \<Longrightarrow> json r = Inr body \<Longrightarrow> status r = 429 \<Longrightarrow>
   int (Suc i) \<le> planMaxRetries p \<Longrightarrow>
   executeLoop fetch p i b =
     afterDelay (fst (retryAfter r b)) (executeLoop fetch p (Suc i) (snd (retryAfter r b)))"
  by (subst executeLoop.simps) (simp add: ok_def)

lemma executeLoop_exhausted:
  "fetch (planRequest p) i = Inr r \<Longrightarrow> json r = Inr body \<Longrightarrow> status r = 429 \<Longrightarrow>
   \<not> int (Suc i) \<le> planMaxRetries p \<Longrightarrow>
   executeLoop fetch p i b =
     \<lparr>settled = Rejected (MaxRetriesExceededError (status r) (statusText r) r body),
      fetches = 1, delays = [fst (retryAfter r b)]\<rparr>"
  by (subst executeLoop.simps) (simp add: ok_def)

lemma executeLoop_other:
  "fetch (planRequest p) i = Inr r \<Longrightarrow> json r = Inr body \<Longrightarrow> \<not> ok r \<Longrightarrow> status r \<noteq> 429 \<Longrightarrow>
   \<not> (status r = 404 \<and> planNullOn404 p) \<Longrightarrow>
   executeLoop fetch p i b = settle (Rejected (ApiError (status r) (statusText r) r body))"
  by (subst executeLoop.simps) auto

lemma throttled_prefix:
  assumes "\<forall>i<k. throttled fetch p i" and "int k \<le> planMaxRetries p"
  shows "\<exists>b'. settled (executeLoop fetch p 0 b) = settled (executeLoop fetch p k b') \<and>
              fetches (executeLoop fetch p 0 b) = k + fetches (executeLoop fetch p k b')"
  using assms
proof (induction k)
  case 0
  then show ?case by auto
next
  case (Suc k)
  then obtain b' where b': "settled (executeLoop fetch p 0 b) = settled (executeLoop fetch p k b')"
      "fetches (executeLoop fetch p 0 b) = k + fetches (executeLoop fetch p k b')"
    by auto
  from Suc.prems have "throttled fetch p k" by simp
  then obtain r body where r: "fetch (planRequest p) k = Inr r" "status r = 429" "json r = Inr body"
    by (rule throttledE)
  from executeLoop_retry[of fetch p k r body b'] r Suc.prems(2)
  have "executeLoop fetch p k b' =
        afterDelay (fst (retryAfter r b')) (executeLoop fetch p (Suc k) (snd (retryAfter r b')))"
    by simp
  with b' show ?case
    by (auto simp: afterDelay_def)
qed

lemma reach:
  assumes "\<forall>i<k. throttled fetch p i" and "k = 0 \<or> int k \<le> planMaxRetries p"
  shows "\<exists>b'. settled (executeRequest fetch p) = settled (executeLoop fetch p k b') \<and>
              fetches (executeRequest fetch p) = k + fetches (executeLoop fetch p k b')"
proof (cases "k = 0")
  case True
  then show ?thesis by (auto simp: executeRequest_def)
next
  case False
  with assms(2) have "int k \<le> planMaxRetries p" by simp
  from throttled_prefix[OF assms(1) this] show ?thesis
    by (simp add: executeRequest_def)
qed

lemma retried_only_if_throttled:
  "j \<le> i \<Longrightarrow> Suc i < j + fetches (executeLoop fetch p j b) \<Longrightarrow> throttled fetch p i"
proof (induction fetch p j b rule: executeLoop.induct)
  case (1 fetch p retries b)
  show ?case
  proof (cases "fetch (planRequest p) retries")
    case (Inl e)
    with "1.prems" show ?thesis
      by (simp add: executeLoop_thrown settle_def)
  next
    case (Inr r)
    show ?thesis
    proof (cases "json r")
      case (Inl e)
      with Inr "1.prems" show ?thesis
        by (simp add: executeLoop_json_thrown settle_def)
    next
      case body: (Inr body)
      show ?thesis
      proof (cases "status r = 429")
        case False
        with Inr body "1.prems" show ?thesis
          by (subst (asm) executeLoop.simps) (simp add: settle_def split: if_splits)
      next
        case True
        then have nok: "\<not> ok r" by (simp add: ok_def)
        have here: "throttled fetch p retries"
          by (simp add: throttled_def Inr body True)
        show ?thesis
        proof (cases "int (Suc retries) \<le> planMaxRetries p")
          case False
          with Inr body True "1.prems" show ?thesis
            by (simp add: executeLoop_exhausted)
        next
          case le: True
          show ?thesis
          proof (cases "i = retries")
            case True
            with here show ?thesis by simp
          next
            case False
            with "1.prems"(1) have "Suc retries \<le> i" by simp
            moreover have "Suc i < Suc retries + fetches (executeLoop fetch p (Suc retries) (snd (retryAfter r b)))"
              using "1.prems"(2) executeLoop_retry[of fetch p retries r body b] Inr body True le
              by (simp add: afterDelay_def)
            ultimately show ?thesis
              using "1.IH"[OF Inr body nok _ True le] True by auto
          qed
        qed
      qed
    qed
  qed
qed

lemma bookPlan_simps:
  "planMaxRetries (bookPlan n f) = n" "planNullOn404 (bookPlan n f) = f"
  by (simp_all add: bookPlan_def invoke_def makePlan_def createInterface_def noOptions_def Let_def)

lemma throttled_throttledThen: "i < k \<Longrightarrow> throttled (throttledThen k final) p i"
  by (simp add: throttled_def throttledThen_def respond_def)




text \<open>
  The executor on bodies that parse as JSON. With \<open>throttled fetch p i\<close> for "the
  \<open>i\<close>-th call of \<open>fetch\<close> returns a response of status 429 whose body parses": a
  further call of \<open>fetch\<close> is made only after a throttled one. Reached as the first
  attempt or after throttled ones, a response whose body parses and whose status is
  neither a success nor 429 (nor 404 while \<open>nullOn404\<close> is on) rejects at once with an
  \<open>ApiError\<close> of that response's status, status text and body; a failure thrown by
  \<open>fetch\<close> or by the parsing of the body rejects at once with its classification.
  When every attempt allowed by \<open>maxRetries\<close> (the first and \<open>maxRetries\<close> more) is
  throttled, the promise rejects with a \<open>MaxRetriesExceededError\<close> of the last
  response's status, status text and body.
\<close>

lemma only_throttled_retried:
  "(\<forall>i. Suc i < fetches (executeRequest fetch p) \<longrightarrow> throttled fetch p i)
   \<and> (\<forall>k r body.
        (\<forall>i<k. throttled fetch p i) \<and> (k = 0 \<or> int k \<le> planMaxRetries p) \<and>
        fetch (planRequest p) k = Inr r \<and> json r = Inr body \<and>
        \<not> ok r \<and> status r \<noteq> 429 \<and> \<not> (status r = 404 \<and> planNullOn404 p) \<longrightarrow>
        settled (executeRequest fetch p) =
          Rejected (ApiError (status r) (statusText r) r body) \<and>
        fetches (executeRequest fetch p) = Suc k)
   \<and> (\<forall>k e.
        (\<forall>i<k. throttled fetch p i) \<and> (k = 0 \<or> int k \<le> planMaxRetries p) \<and>
        (fetch (planRequest p) k = Inl e \<or>
         (case fetch (planRequest p) k of Inl e' \<Rightarrow> False | Inr r \<Rightarrow> json r = Inl e)) \<longrightarrow>
        settled (executeRequest fetch p) = Rejected (classify e) \<and>
        fetches (executeRequest fetch p) = Suc k)
   \<and> (\<forall>r body.
        (\<forall>i \<le> nat (planMaxRetries p). throttled fetch p i) \<and>
        fetch (planRequest p) (nat (planMaxRetries p)) = Inr r \<and> json r = Inr body \<longrightarrow>
        settled (executeRequest fetch p) =
          Rejected (MaxRetriesExceededError (status r) (statusText r) r body) \<and>
        status r = 429 \<and>
        fetches (executeRequest fetch p) = Suc (nat (planMaxRetries p)))"
proof (intro conjI allI impI)
  fix i
  assume "Suc i < fetches (executeRequest fetch p)"
  then show "throttled fetch p i"
    using retried_only_if_throttled[of 0 i fetch p "Backoff 100 20000"]
    by (simp add: executeRequest_def)
next
  fix k r body
  assume a: "(\<forall>i<k. throttled fetch p i) \<and> (k = 0 \<or> int k \<le> planMaxRetries p) \<and>
        fetch (planRequest p) k = Inr r \<and> json r = Inr body \<and>
        \<not> ok r \<and> status r \<noteq> 429 \<and> \<not> (status r = 404 \<and> planNullOn404 p)"
  then obtain b' where b': "settled (executeRequest fetch p) = settled (executeLoop fetch p k b')"
      "fetches (executeRequest fetch p) = k + fetches (executeLoop fetch p k b')"
    using reach[of k fetch p] by blast
  from a have "executeLoop fetch p k b' = settle (Rejected (ApiError (status r) (statusText r) r body))"
    by (intro executeLoop_other) simp_all
  with b' show "settled (executeRequest fetch p) = Rejected (ApiError (status r) (statusText r) r body)"
    and "fetches (executeRequest fetch p) = Suc k"
    by (simp_all add: settle_def)
next
  fix k e
  assume a: "(\<forall>i<k. throttled fetch p i) \<and> (k = 0 \<or> int k \<le> planMaxRetries p) \<and>
        (fetch (planRequest p) k = Inl e \<or>
         (case fetch (planRequest p) k of Inl e' \<Rightarrow> False | Inr r \<Rightarrow> json r = Inl e))"
  then obtain b' where b': "settled (executeRequest fetch p) = settled (executeLoop fetch p k b')"
      "fetches (executeRequest fetch p) = k + fetches (executeLoop fetch p k b')"
    using reach[of k fetch p] by blast
  have "executeLoop fetch p k b' = settle (Rejected (classify e))"
  proof (cases "fetch (planRequest p) k")
    case (Inl e')
    with a show ?thesis
      by (simp add: executeLoop_thrown)
  next
    case (Inr r)
    with a have "json r = Inl e"
      by simp
    with Inr show ?thesis
      by (simp add: executeLoop_json_thrown)
  qed
  with b' show "settled (executeRequest fetch p) = Rejected (classify e)"
    and "fetches (executeRequest fetch p) = Suc k"
    by (simp_all add: settle_def)
next
  fix r body
  let ?k = "nat (planMaxRetries p)"
  assume a: "(\<forall>i \<le> ?k. throttled fetch p i) \<and>
        fetch (planRequest p) ?k = Inr r \<and> json r = Inr body"
  then have "\<forall>i<?k. throttled fetch p i" "?k = 0 \<or> int ?k \<le> planMaxRetries p"
    by auto
  then obtain b' where b': "settled (executeRequest fetch p) = settled (executeLoop fetch p ?k b')"
      "fetches (executeRequest fetch p) = ?k + fetches (executeLoop fetch p ?k b')"
    using reach[of ?k fetch p] by blast
  from a have "throttled fetch p ?k" by simp
  with a have st: "status r = 429"
    by (simp add: throttled_def)
  have "\<not> int (Suc ?k) \<le> planMaxRetries p" by simp
  with a st have "executeLoop fetch p ?k b' =
     \<lparr>settled = Rejected (MaxRetriesExceededError (status r) (statusText r) r body),
      fetches = 1, delays = [fst (retryAfter r b')]\<rparr>"
    by (intro executeLoop_exhausted) simp_all
  with b' st show "settled (executeRequest fetch p) =
      Rejected (MaxRetriesExceededError (status r) (statusText r) r body)"
    and "status r = 429" and "fetches (executeRequest fetch p) = Suc ?k"
    by simp_all
qed

lemma only_throttled_retried_example:
  "settled (executeRequest
      (throttledThen 1 (respond 500 ''Internal Server Error'' [] ''[]'')) (bookPlan 2 False)) =
     Rejected (ApiError 500 ''Internal Server Error''
       \<lparr>status = 500, statusText = ''Internal Server Error'', headers = map_of [],
        json = Inr ''[]''\<rparr> ''[]'')
   \<and> fetches (executeRequest
      (throttledThen 1 (respond 500 ''Internal Server Error'' [] ''[]'')) (bookPlan 2 False)) = 2
   \<and> settled (executeRequest
      (throttledThen 3 (respond 200 ''OK'' [] ''[]'')) (bookPlan 2 False)) =
     Rejected (MaxRetriesExceededError 429 ''Too Many Requests''
       \<lparr>status = 429, statusText = ''Too Many Requests'',
        headers = map_of [(''Retry-After'', ''1'')], json = Inr ''{}''\<rparr> ''{}'')
   \<and> fetches (executeRequest
      (throttledThen 3 (respond 200 ''OK'' [] ''[]'')) (bookPlan 2 False)) = 3"
proof -
  let ?f = "throttledThen 1 (respond 500 ''Internal Server Error'' [] ''[]'')"
  let ?g = "throttledThen 3 (respond 200 ''OK'' [] ''[]'')"
  let ?r = "\<lparr>status = 500, statusText = ''Internal Server Error'', headers = map_of [],
        json = Inr ''[]''\<rparr> :: string response"
  let ?t = "\<lparr>status = 429, statusText = ''Too Many Requests'',
        headers = map_of [(''Retry-After'', ''1'')], json = Inr ''{}''\<rparr> :: string response"
  have "(\<forall>i<1. throttled ?f (bookPlan 2 False) i) \<and> ((1::nat) = 0 \<or> int 1 \<le> planMaxRetries (bookPlan 2 False)) \<and>
        ?f (planRequest (bookPlan 2 False)) 1 = Inr ?r \<and> json ?r = Inr ''[]'' \<and>
        \<not> ok ?r \<and> status ?r \<noteq> 429 \<and> \<not> (status ?r = 404 \<and> planNullOn404 (bookPlan 2 False))"
    by (simp add: throttled_throttledThen bookPlan_simps ok_def) (simp add: throttledThen_def respond_def)
  with only_throttled_retried[of ?f "bookPlan 2 False", THEN conjunct2, THEN conjunct1,
      rule_format, of 1 ?r "''[]''"]
  have one: "settled (executeRequest ?f (bookPlan 2 False)) =
          Rejected (ApiError (status ?r) (statusText ?r) ?r ''[]'') \<and>
        fetches (executeRequest ?f (bookPlan 2 False)) = Suc 1"
    by blast
  have "(\<forall>i \<le> nat (planMaxRetries (bookPlan 2 False)). throttled ?g (bookPlan 2 False) i) \<and>
        ?g (planRequest (bookPlan 2 False)) (nat (planMaxRetries (bookPlan 2 False))) = Inr ?t \<and>
        json ?t = Inr ''{}''"
    by (simp add: throttled_throttledThen bookPlan_simps) (simp add: throttledThen_def respond_def)
  with only_throttled_retried[of ?g "bookPlan 2 False", THEN conjunct2, THEN conjunct2,
      THEN conjunct2, rule_format, of ?t "''{}''"]
  have two: "settled (executeRequest ?g (bookPlan 2 False)) =
          Rejected (MaxRetriesExceededError (status ?t) (statusText ?t) ?t ''{}'') \<and>
        status ?t = 429 \<and>
        fetches (executeRequest ?g (bookPlan 2 False)) = Suc (nat (planMaxRetries (bookPlan 2 False)))"
    by blast
  from one two show ?thesis
    by (simp add: bookPlan_simps)
qed


text \<open>
  A response of status 404 whose body parses as JSON, reached as the first attempt or
  after throttled ones, resolves the promise with \<open>null\<close> when \<open>nullOn404\<close> is on,
  and rejects it with an \<open>ApiError\<close> of status 404 when it is off; the plan's flag is
  on exactly when the API was created with \<open>nullOn404: true\<close>.
\<close>

lemma null_on_not_found:
  "(\<forall>k r body.
      (\<forall>i<k. throttled fetch p i) \<and> (k = 0 \<or> int k \<le> planMaxRetries p) \<and>
      fetch (planRequest p) k = Inr r \<and> json r = Inr body \<and> status r = 404 \<longrightarrow>
      settled (executeRequest fetch p) =
        (if planNullOn404 p then Resolved None
         else Rejected (ApiError 404 (statusText r) r body)) \<and>
      fetches (executeRequest fetch p) = Suc k)
   \<and> planNullOn404 (plan (invoke (createInterface e d apiOpts) manyOptionsOrId baseOptions)) =
       (nullOn404 apiOpts = Some True)"
proof (intro conjI allI impI)
  fix k r body
  assume a: "(\<forall>i<k. throttled fetch p i) \<and> (k = 0 \<or> int k \<le> planMaxRetries p) \<and>
      fetch (planRequest p) k = Inr r \<and> json r = Inr body \<and> status r = 404"
  then obtain b' where b': "settled (executeRequest fetch p) = settled (executeLoop fetch p k b')"
      "fetches (executeRequest fetch p) = k + fetches (executeLoop fetch p k b')"
    using reach[of k fetch p] by blast
  from a have nok: "\<not> ok r" "status r \<noteq> 429"
    by (simp_all add: ok_def)
  have "executeLoop fetch p k b' =
      settle (if planNullOn404 p then Resolved None
              else Rejected (ApiError 404 (statusText r) r body))"
  proof (cases "planNullOn404 p")
    case True
    with a show ?thesis
      using executeLoop_null[of fetch p k r body b'] by simp
  next
    case False
    with a nok show ?thesis
      using executeLoop_other[of fetch p k r body b'] by simp
  qed
  with b' show "settled (executeRequest fetch p) =
        (if planNullOn404 p then Resolved None
         else Rejected (ApiError 404 (statusText r) r body))"
    and "fetches (executeRequest fetch p) = Suc k"
    by (simp_all add: settle_def)
next
  show "planNullOn404 (plan (invoke (createInterface e d apiOpts) manyOptionsOrId baseOptions)) =
       (nullOn404 apiOpts = Some True)"
    by (simp add: invoke_def makePlan_def createInterface_def Let_def)
qed

lemma null_on_not_found_example:
  "settled (executeRequest (throttledThen 0 (respond 404 ''Not Found'' [] ''{}'')) (bookPlan 10 True)) =
     Resolved None
   \<and> fetches (executeRequest (throttledThen 0 (respond 404 ''Not Found'' [] ''{}'')) (bookPlan 10 True)) = 1"
proof -
  let ?f = "throttledThen 0 (respond 404 ''Not Found'' [] ''{}'')"
  let ?r = "\<lparr>status = 404, statusText = ''Not Found'', headers = map_of [], json = Inr ''{}''\<rparr>
     :: string response"
  have "(\<forall>i<0. throttled ?f (bookPlan 10 True) i) \<and>
      ((0::nat) = 0 \<or> int 0 \<le> planMaxRetries (bookPlan 10 True)) \<and>
      ?f (planRequest (bookPlan 10 True)) 0 = Inr ?r \<and> json ?r = Inr ''{}'' \<and> status ?r = 404"
    by (simp add: throttledThen_def respond_def)
  with null_on_not_found[of ?f "bookPlan 10 True", THEN conjunct1]
  have "settled (executeRequest ?f (bookPlan 10 True)) =
        (if planNullOn404 (bookPlan 10 True) then Resolved None
         else Rejected (ApiError 404 (statusText ?r) ?r ''{}'')) \<and>
      fetches (executeRequest ?f (bookPlan 10 True)) = Suc 0"
    by blast
  then show ?thesis
    by (simp add: bookPlan_simps)
qed


text \<open>
  C10. The stand-in \<open>testFetch\<close> answers every request with a response of status 200
  whose body is the URL. The executor first awaits \<open>response.json()\<close>; the URL begins
  with \<open>h\<close> and is no JSON text, so that call throws a \<open>SyntaxError\<close>, the
  \<open>catch\<close> block takes it, and every request rejects with \<open>UnknownError('{}')\<close>
  after one call of \<open>fetch\<close>: no handle resolves with the URL.
\<close>

theorem stub_rejects:
  "executeRequest (testFetch grammar) p =
     \<lparr>settled = Rejected (UnknownError ''{}''), fetches = 1, delays = []\<rparr>
   \<and> testFetch grammar (planRequest p) n = Inr (Response grammar (url (planRequest p)) 200)
   \<and> status (Response grammar body 200) = 200
   \<and> ok (Response grammar body 200)"
proof -
  have "dropWhile jsonWhitespace (url (planRequest p)) = url (planRequest p)"
    by (simp add: planRequest_def origin_def jsonWhitespace_def)
  moreover have "\<exists>rest. url (planRequest p) = CHR ''h'' # rest"
    by (simp add: planRequest_def origin_def)
  moreover have "\<not> jsonStart CHR ''h''"
    by (simp add: jsonStart_def)
  ultimately have "parseJson grammar (url (planRequest p)) = Inl (SyntaxError ''Unexpected token'')"
    by (auto simp: parseJson_def)
  then have "executeLoop (testFetch grammar) p 0 (Backoff 100 20000) =
      settle (Rejected (classify (SyntaxError ''Unexpected token'')))"
    by (intro executeLoop_json_thrown[where r = "Response grammar (url (planRequest p)) 200"])
       (simp_all add: testFetch_def Response_def)
  then show ?thesis
    by (simp add: executeRequest_def settle_def classify_def SyntaxError_def testFetch_def
        Response_def ok_def)
qed

lemma retryAfter_header:
  "headers r ''Retry-After'' = Some h \<Longrightarrow> h \<noteq> [] \<Longrightarrow> retryAfter r b = (FromHeader h, b)"
  by (simp add: retryAfter_def)

lemma retryAfter_backoff:
  "headers r ''Retry-After'' = None \<or> headers r ''Retry-After'' = Some [] \<Longrightarrow>
   retryAfter r b =
     (FromBackoff (min (ms b * 2 ^ attempts b) (maxMs b)), b\<lparr>attempts := Suc (attempts b)\<rparr>)"
  by (auto simp: retryAfter_def duration_def)

lemma expectedDelays_step:
  assumes "ms b = 100" "maxMs b = 20000"
  shows "expectedDelays (headers r ''Retry-After'' # hs) (attempts b) =
         fst (retryAfter r b) # expectedDelays hs (attempts (snd (retryAfter r b)))
         \<and> ms (snd (retryAfter r b)) = 100 \<and> maxMs (snd (retryAfter r b)) = 20000"
proof (cases "headers r ''Retry-After''")
  case None
  with assms show ?thesis
    by (simp add: retryAfter_backoff)
next
  case (Some h)
  with assms show ?thesis
    by (cases "h = []") (simp_all add: retryAfter_backoff retryAfter_header)
qed

lemma delays_expected:
  "ms b = 100 \<Longrightarrow> maxMs b = 20000 \<Longrightarrow>
   delays (executeLoop fetch p j b) =
     expectedDelays
       (map (\<lambda>i. retryAfterHeader (fetch (planRequest p) i))
          [j..<j + length (delays (executeLoop fetch p j b))])
       (attempts b)"
proof (induction fetch p j b rule: executeLoop.induct)
  case (1 fetch p retries b)
  show ?case
  proof (cases "fetch (planRequest p) retries")
    case (Inl e)
    then show ?thesis
      by (simp add: executeLoop_thrown settle_def)
  next
    case (Inr r)
    show ?thesis
    proof (cases "json r")
      case (Inl e)
      with Inr show ?thesis
        by (simp add: executeLoop_json_thrown settle_def)
    next
      case body: (Inr body)
      have hdr: "retryAfterHeader (fetch (planRequest p) retries) = headers r ''Retry-After''"
        "retryAfterHeader (Inr r) = headers r ''Retry-After''"
        by (simp_all add: retryAfterHeader_def Inr)
      note step = expectedDelays_step[OF "1.prems", of r]
      show ?thesis
      proof (cases "status r = 429")
        case False
        with Inr body show ?thesis
          by (subst (1 2) executeLoop.simps) (simp add: settle_def)
      next
        case True
        then have nok: "\<not> ok r" by (simp add: ok_def)
        show ?thesis
        proof (cases "int (Suc retries) \<le> planMaxRetries p")
          case False
          with Inr body True show ?thesis
            using step[of "[]"] by (simp add: executeLoop_exhausted hdr)
        next
          case le: True
          let ?rest = "executeLoop fetch p (Suc retries) (snd (retryAfter r b))"
          let ?f = "\<lambda>i. retryAfterHeader (fetch (planRequest p) i)"
          let ?hs = "map ?f [Suc retries..<Suc retries + length (delays ?rest)]"
          have unfold: "executeLoop fetch p retries b = afterDelay (fst (retryAfter r b)) ?rest"
            using executeLoop_retry[of fetch p retries r body b] Inr body True le by simp
          have ih: "delays ?rest = expectedDelays ?hs (attempts (snd (retryAfter r b)))"
            using "1.IH"[OF Inr body nok _ True le] True step by auto
          have dl: "delays (afterDelay (fst (retryAfter r b)) ?rest) = fst (retryAfter r b) # delays ?rest"
            by (simp add: afterDelay_def)
          have "retries < retries + Suc (length (delays ?rest))"
            by simp
          from upt_conv_Cons[OF this]
          have "map ?f [retries..<retries + Suc (length (delays ?rest))] = ?f retries # ?hs"
            by (simp del: upt_Suc)
          then have "expectedDelays
              (map ?f [retries..<retries + length (fst (retryAfter r b) # delays ?rest)]) (attempts b) =
              expectedDelays (headers r ''Retry-After'' # ?hs) (attempts b)"
            by (simp add: hdr del: upt_Suc)
          also have "\<dots> = fst (retryAfter r b) # expectedDelays ?hs (attempts (snd (retryAfter r b)))"
            using step[of ?hs] by (rule conjunct1)
          also have "\<dots> = fst (retryAfter r b) # delays ?rest"
            by (simp only: ih[symmetric])
          finally show ?thesis
            unfolding unfold dl by (rule sym)
        qed
      qed
    qed
  qed
qed

lemma delayed_only_if_throttled:
  "j \<le> i \<Longrightarrow> i < j + length (delays (executeLoop fetch p j b)) \<Longrightarrow> throttled fetch p i"
proof (induction fetch p j b rule: executeLoop.induct)
  case (1 fetch p retries b)
  show ?case
  proof (cases "fetch (planRequest p) retries")
    case (Inl e)
    with "1.prems" show ?thesis
      by (simp add: executeLoop_thrown settle_def)
  next
    case (Inr r)
    show ?thesis
    proof (cases "json r")
      case (Inl e)
      with Inr "1.prems" show ?thesis
        by (simp add: executeLoop_json_thrown settle_def)
    next
      case body: (Inr body)
      show ?thesis
      proof (cases "status r = 429")
        case False
        with Inr body "1.prems" show ?thesis
          by (subst (asm) executeLoop.simps) (simp add: settle_def split: if_splits)
      next
        case True
        then have nok: "\<not> ok r" by (simp add: ok_def)
        have here: "throttled fetch p retries"
          by (simp add: throttled_def Inr body True)
        show ?thesis
        proof (cases "i = retries")
          case True
          with here show ?thesis by simp
        next
          case ne: False
          show ?thesis
          proof (cases "int (Suc retries) \<le> planMaxRetries p")
            case False
            with Inr body True "1.prems" ne show ?thesis
              by (simp add: executeLoop_exhausted)
          next
            case le: True
            from ne "1.prems"(1) have "Suc retries \<le> i" by simp
            moreover have "i < Suc retries +
                length (delays (executeLoop fetch p (Suc retries) (snd (retryAfter r b))))"
              using "1.prems"(2) executeLoop_retry[of fetch p retries r body b] Inr body True le
              by (simp add: afterDelay_def)
            ultimately show ?thesis
              using "1.IH"[OF Inr body nok _ True le] True by auto
          qed
        qed
      qed
    qed
  qed
qed

lemma expectedDelays_bounds:
  "FromBackoff d \<in> set (expectedDelays hs k) \<Longrightarrow> 100 \<le> d \<and> d \<le> 20000"
proof (induction hs k rule: expectedDelays.induct)
  case (1 k)
  then show ?case by simp
next
  case (2 h hs k)
  have "(100::nat) \<le> 100 * 2 ^ k" by simp
  with 2 show ?case
    by (auto split: if_splits)
next
  case (3 hs k)
  have "(100::nat) \<le> 100 * 2 ^ k" by simp
  with 3 show ?case
    by auto
qed

lemma throttled_delay:
  assumes "throttled fetch p k"
  shows "delays (executeLoop fetch p k b) \<noteq> []"
proof -
  from assms obtain r body where r: "fetch (planRequest p) k = Inr r" "status r = 429" "json r = Inr body"
    by (rule throttledE)
  show ?thesis
  proof (cases "int (Suc k) \<le> planMaxRetries p")
    case True
    with r show ?thesis
      using executeLoop_retry[of fetch p k r body b] by (simp add: afterDelay_def)
  next
    case False
    with r show ?thesis
      using executeLoop_exhausted[of fetch p k r body b] by simp
  qed
qed

lemma throttled_prefix_delays:
  assumes "\<forall>i<k. throttled fetch p i" and "int k \<le> planMaxRetries p"
  shows "\<exists>b' ds. delays (executeLoop fetch p 0 b) = ds @ delays (executeLoop fetch p k b') \<and>
                 length ds = k"
  using assms
proof (induction k)
  case 0
  then show ?case by auto
next
  case (Suc k)
  then obtain b' ds where b': "delays (executeLoop fetch p 0 b) = ds @ delays (executeLoop fetch p k b')"
      "length ds = k"
    by auto
  from Suc.prems have "throttled fetch p k" by simp
  then obtain r body where r: "fetch (planRequest p) k = Inr r" "status r = 429" "json r = Inr body"
    by (rule throttledE)
  from executeLoop_retry[of fetch p k r body b'] r Suc.prems(2)
  have "executeLoop fetch p k b' =
        afterDelay (fst (retryAfter r b')) (executeLoop fetch p (Suc k) (snd (retryAfter r b')))"
    by simp
  with b' have "delays (executeLoop fetch p 0 b) =
      (ds @ [fst (retryAfter r b')]) @ delays (executeLoop fetch p (Suc k) (snd (retryAfter r b')))
      \<and> length (ds @ [fst (retryAfter r b')]) = Suc k"
    by (simp add: afterDelay_def)
  then show ?case by blast
qed

text \<open>
  The delays of a run are determined by the \<open>Retry-After\<close> headers of the throttled
  responses, in order: a header that is present and not empty gives
  \<open>setTimeout(+header)\<close>; a header that is absent or empty gives the next duration of
  the backoff, \<open>100 * 2 ^ k\<close> capped at 20000 for the \<open>k\<close>-th draw, so between 100
  and 20000. Every throttled response that is reached is followed by one delay, and
  there is no other delay.
\<close>

lemma retry_delays:
  "delays (executeRequest fetch p) =
     expectedDelays
       (map (\<lambda>i. retryAfterHeader (fetch (planRequest p) i))
          [0..<length (delays (executeRequest fetch p))]) 0
   \<and> (\<forall>i<length (delays (executeRequest fetch p)). throttled fetch p i)
   \<and> (\<forall>k. (\<forall>i\<le>k. throttled fetch p i) \<and> (k = 0 \<or> int k \<le> planMaxRetries p) \<longrightarrow>
          k < length (delays (executeRequest fetch p)))
   \<and> (\<forall>d. FromBackoff d \<in> set (delays (executeRequest fetch p)) \<longrightarrow> 100 \<le> d \<and> d \<le> 20000)"
proof -
  let ?run = "executeLoop fetch p 0 (Backoff 100 20000)"
  let ?hs = "map (\<lambda>i. retryAfterHeader (fetch (planRequest p) i)) [0..<length (delays ?run)]"
  have shape: "delays ?run = expectedDelays ?hs 0"
    using delays_expected[of "Backoff 100 20000" fetch p 0] by (simp add: Backoff_def)
  have only: "\<forall>i<length (delays ?run). throttled fetch p i"
    using delayed_only_if_throttled[of 0 _ fetch p "Backoff 100 20000"] by simp
  have every: "k < length (delays ?run)"
    if "(\<forall>i\<le>k. throttled fetch p i) \<and> (k = 0 \<or> int k \<le> planMaxRetries p)" for k
  proof (cases "k = 0")
    case True
    with that throttled_delay[of fetch p 0 "Backoff 100 20000"] show ?thesis
      by simp
  next
    case False
    with that have "\<forall>i<k. throttled fetch p i" "int k \<le> planMaxRetries p"
      by auto
    from throttled_prefix_delays[OF this, of "Backoff 100 20000"]
    obtain b' ds where "delays ?run = ds @ delays (executeLoop fetch p k b')" "length ds = k"
      by blast
    moreover from that have "delays (executeLoop fetch p k b') \<noteq> []"
      by (intro throttled_delay) simp
    ultimately show ?thesis
      by (cases "delays (executeLoop fetch p k b')") simp_all
  qed
  have bounds: "100 \<le> d \<and> d \<le> 20000" if "FromBackoff d \<in> set (delays ?run)" for d
    using that shape expectedDelays_bounds[of d ?hs 0] by simp
  from shape only every bounds show ?thesis
    unfolding executeRequest_def by blast
qed

lemma datedThenPlain_run:
  "delays (executeRequest datedThenPlain (bookPlan 10 False)) =
     [FromHeader ''Wed, 21 Oct 2015 07:28:00 GMT'', FromBackoff 100]"
proof -
  let ?p = "bookPlan 10 False"
  let ?b = "Backoff 100 20000"
  let ?r0 = "\<lparr>status = 429, statusText = ''Too Many Requests'',
     headers = map_of [(''Retry-After'', ''Wed, 21 Oct 2015 07:28:00 GMT'')], json = Inr ''{}''\<rparr>
     :: string response"
  let ?r1 = "\<lparr>status = 429, statusText = ''Too Many Requests'', headers = map_of [],
     json = Inr ''{}''\<rparr> :: string response"
  let ?r2 = "\<lparr>status = 200, statusText = ''OK'', headers = map_of [], json = Inr ''[]''\<rparr>
     :: string response"
  have d0: "retryAfter ?r0 ?b = (FromHeader ''Wed, 21 Oct 2015 07:28:00 GMT'', ?b)"
    by (simp add: retryAfter_def)
  have d1: "retryAfter ?r1 ?b = (FromBackoff 100, ?b\<lparr>attempts := 1\<rparr>)"
    by (simp add: retryAfter_def duration_def Backoff_def)
  have s0: "executeLoop datedThenPlain ?p 0 ?b =
      afterDelay (fst (retryAfter ?r0 ?b)) (executeLoop datedThenPlain ?p (Suc 0) (snd (retryAfter ?r0 ?b)))"
    by (rule executeLoop_retry[where body = "''{}''"])
       (simp_all add: datedThenPlain_def respond_def bookPlan_simps)
  have s1: "executeLoop datedThenPlain ?p (Suc 0) ?b =
      afterDelay (fst (retryAfter ?r1 ?b)) (executeLoop datedThenPlain ?p (Suc (Suc 0)) (snd (retryAfter ?r1 ?b)))"
    by (rule executeLoop_retry[where body = "''{}''"])
       (simp_all add: datedThenPlain_def respond_def bookPlan_simps)
  have s2: "executeLoop datedThenPlain ?p (Suc (Suc 0)) (?b\<lparr>attempts := 1\<rparr>) = settle (Resolved (Some ''[]''))"
    by (rule executeLoop_ok[where r = ?r2])
       (simp_all add: datedThenPlain_def respond_def ok_def)
  show ?thesis
    unfolding executeRequest_def s0 d0 fst_conv snd_conv s1 d1 s2
    by (simp add: afterDelay_def settle_def)
qed

text \<open>
  C4. A header that is present and not numeric does not lead to the backoff: a 429
  response with \<open>Retry-After: Wed, 21 Oct 2015 07:28:00 GMT\<close> is followed by
  \<open>setTimeout(+header)\<close>, the header's text converted to a number, and the backoff is
  not consulted (the next 429, without the header, draws its first duration, 100).
\<close>

theorem dated_retry_after_skips_backoff:
  "datedThenPlain (planRequest (bookPlan 10 False)) 0 =
     respond 429 ''Too Many Requests'' [(''Retry-After'', ''Wed, 21 Oct 2015 07:28:00 GMT'')] ''{}''
   \<and> delays (executeRequest datedThenPlain (bookPlan 10 False)) =
       [FromHeader ''Wed, 21 Oct 2015 07:28:00 GMT'', FromBackoff 100]
   \<and> hd (delays (executeRequest datedThenPlain (bookPlan 10 False))) \<noteq>
       FromBackoff (fst (duration (Backoff 100 20000)))"
  by (simp add: datedThenPlain_run) (simp add: datedThenPlain_def)

lemma retry_delays_example:
  "FromBackoff 100 \<in> set (delays (executeRequest datedThenPlain (bookPlan 10 False)))
   \<and> (100::nat) \<le> 100 \<and> (100::nat) \<le> 20000
   \<and> throttled datedThenPlain (bookPlan 10 False) 0
   \<and> throttled datedThenPlain (bookPlan 10 False) 1"
proof -
  have len: "length (delays (executeRequest datedThenPlain (bookPlan 10 False))) = 2"
    by (simp add: datedThenPlain_run)
  have "FromBackoff 100 \<in> set (delays (executeRequest datedThenPlain (bookPlan 10 False)))"
    by (simp add: datedThenPlain_run)
  moreover have "\<forall>i<2. throttled datedThenPlain (bookPlan 10 False) i"
    using retry_delays[of datedThenPlain "bookPlan 10 False"] len by simp
  ultimately show ?thesis
    using retry_delays[of datedThenPlain "bookPlan 10 False"] by simp
qed


section \<open>The query composer and the chainable interface\<close>

lemma ampersand_reserved: "\<not> isUnreserved CHR ''&''"
  by (simp add: isUnreserved_def)

lemma ampersand_not_encoded: "CHR ''&'' \<notin> set (encodeURIComponent s)"
  by (rule encodeURIComponent_chars) (simp_all add: isUnreserved_def)

lemma ampersand_not_in_number: "CHR ''&'' \<notin> set (numberToString n)"
  using numberToString_unreserved[of "CHR ''&''" n] ampersand_reserved by auto

lemma pair_no_trailing_ampersand:
  "CHR ''&'' \<notin> set v \<Longrightarrow> \<not> endsWithAmpersand (k @ ''='' @ v) \<and> k @ ''='' @ v \<noteq> []"
  by (cases "v = []") (auto simp: endsWithAmpersand_def dest: last_in_set)

lemma join_nonempty: "x \<noteq> [] \<Longrightarrow> join sep (x # xs) \<noteq> []"
  by (cases xs) simp_all

lemma join_no_trailing_ampersand:
  "\<forall>x \<in> set xs. \<not> endsWithAmpersand x \<and> x \<noteq> [] \<Longrightarrow> \<not> endsWithAmpersand (join ''&'' xs)"
proof (induction "''&''" xs rule: join.induct)
  case 1
  then show ?case by (simp add: endsWithAmpersand_def)
next
  case (2 x)
  then show ?case by simp
next
  case (3 x y ys)
  from 3 have "\<not> endsWithAmpersand (join ''&'' (y # ys))"
    by simp
  moreover from 3 have "join ''&'' (y # ys) \<noteq> []"
    by (intro join_nonempty) simp
  ultimately show ?case
    by (simp add: endsWithAmpersand_def)
qed

lemma keys_encoded:
  "encodeURIComponent ''limit'' = ''limit''" "encodeURIComponent ''page'' = ''page''"
  "encodeURIComponent ''offset'' = ''offset''" "encodeURIComponent ''order'' = ''order''"
  by code_simp+

lemma stringify_queryObject:
  "stringify (queryObject opts) = join ''&'' (paginationFields opts)"
  by (cases "limit opts"; cases "page opts"; cases "offset opts"; cases "order opts")
     (simp_all add: stringify_def queryObject_def omitByIsNil_def numberOrUndefined_def
        stringOrUndefined_def keys_encoded paginationFields_def)

lemma paginationFields_no_trailing:
  "\<forall>x \<in> set (paginationFields opts). \<not> endsWithAmpersand x \<and> x \<noteq> []"
proof -
  have "\<not> endsWithAmpersand (''limit'' @ ''='' @ numberToString n)"
    "\<not> endsWithAmpersand (''page'' @ ''='' @ numberToString n)"
    "\<not> endsWithAmpersand (''offset'' @ ''='' @ numberToString n)"
    "\<not> endsWithAmpersand (''order'' @ ''='' @ encodeURIComponent s)" for n s
    using pair_no_trailing_ampersand[OF ampersand_not_in_number]
          pair_no_trailing_ampersand[OF ampersand_not_encoded]
    by blast+
  then show ?thesis
    by (cases "limit opts"; cases "page opts"; cases "offset opts"; cases "order opts")
       (simp_all add: paginationFields_def)
qed

lemma composeQuery_cases:
  "composeQuery opts fragment =
     (if fragment = [] then stringify (queryObject opts)
      else if stringify (queryObject opts) = [] then fragment
      else stringify (queryObject opts) @ ''&'' @ fragment)"
  by (simp add: composeQuery_def compact_def joinPrimitives_def)

text \<open>
  C7, amended. The query is the pairs \<open>key=value\<close> of the pagination and sort fields
  that are present (an absent field gives no pair), in the order limit, page, offset,
  order, joined by \<open>&\<close>, then the filter fragment, with \<open>&\<close> between the two only
  when both are non-empty. The composer adds no \<open>&\<close> at the end: the query ends in
  \<open>&\<close> exactly when the filter fragment does, so never when there is no filter.
\<close>

theorem query_composition:
  "composeQuery opts fragment =
     (let fields =
            [k @ ''='' @ v.
               (k, Some v) \<leftarrow>
                 [(''limit'', map_option numberToString (limit opts)),
                  (''page'', map_option numberToString (page opts)),
                  (''offset'', map_option numberToString (offset opts)),
                  (''order'', map_option encodeURIComponent (order opts))]];
          pagination = join ''&'' fields
      in if fragment = [] then pagination
         else if pagination = [] then fragment
         else pagination @ ''&'' @ fragment)
   \<and> endsWithAmpersand (composeQuery opts fragment) = endsWithAmpersand fragment"
proof -
  let ?pag = "join ''&'' (paginationFields opts)"
  have form: "composeQuery opts fragment =
      (if fragment = [] then ?pag else if ?pag = [] then fragment else ?pag @ ''&'' @ fragment)"
    by (simp add: composeQuery_cases stringify_queryObject)
  have "\<not> endsWithAmpersand ?pag"
    using paginationFields_no_trailing by (rule join_no_trailing_ampersand)
  with form have "endsWithAmpersand (composeQuery opts fragment) = endsWithAmpersand fragment"
    by (auto simp: endsWithAmpersand_def)
  with form show ?thesis
    by (simp add: paginationFields_def Let_def)
qed

text \<open>
  C7, as the claim states it, fails for a filter fragment that itself ends in \<open>&\<close>:
  the filter map \<open>{ name: true, '': true }\<close> is encoded as \<open>name&\<close> (the fragment of
  the empty field name is empty and is joined like any other), and the query is
  \<open>name&\<close>.
\<close>

theorem query_composition_counterexample:
  "stringifyFilters [(''name'', Exist True), ('''', Exist True)] = ''name&''
   \<and> composeQuery noOptions (stringifyFilters [(''name'', Exist True), ('''', Exist True)]) = ''name&''
   \<and> endsWithAmpersand
       (composeQuery noOptions (stringifyFilters [(''name'', Exist True), ('''', Exist True)]))"
proof -
  have enc: "encodeURIComponent ''name'' = ''name''" "encodeURIComponent [] = []"
    by code_simp+
  have "stringifyFilters [(''name'', Exist True), ('''', Exist True)] = ''name&''"
    by (simp add: stringifyFilters_def filterFragments_distinct enc)
  moreover have "stringify (queryObject noOptions) = []"
    by (simp add: stringify_def queryObject_def noOptions_def omitByIsNil_def
        numberOrUndefined_def stringOrUndefined_def)
  ultimately show ?thesis
    by (simp add: composeQuery_cases endsWithAmpersand_def)
qed

lemma buildApi_names: "map fst (buildApi prefix def opts) = map fst def"
  by (simp add: buildApi_def mapValues_def comp_def case_prod_beta)

text \<open>
  C2, amended. For every call shape (options, id, id and options, nothing) the handle
  carries the child interfaces of the endpoint's \<open>one\<close> definition when that is an
  object, built on the path of this call, and none otherwise: the call shape plays no
  part at run time (it does in the interface's static type only).
\<close>

theorem accessors_whatever_the_call_shape:
  "map fst (accessors (invoke (createInterface e d apiOpts) manyOptionsOrId baseOptions)) =
     (case one d of OneApi api \<Rightarrow> map fst api | _ \<Rightarrow> [])
   \<and> accessors (invoke (createInterface e d apiOpts) manyOptionsOrId baseOptions) =
       (case one d of
          OneApi api \<Rightarrow>
            buildApi (path (plan (invoke (createInterface e d apiOpts) manyOptionsOrId baseOptions)))
              api apiOpts
        | _ \<Rightarrow> [])"
  by (simp add: invoke_def createInterface_def Let_def buildApi_names split: one_field.splits)

text \<open>
  C2, as the claim states it, fails: \<open>book(1, { maxRetries: 3 })\<close>, an id followed by
  options, on an endpoint with the nested resource \<open>chapter\<close> returns a handle that
  has the accessor \<open>chapter\<close>.
\<close>

theorem accessors_counterexample:
  "map fst (accessors (invoke
      (createInterface ''/book''
         (ResourceDefinition None None None None (OneApi [(''chapter'', RecordClass)])) noApiOptions)
      (Id (Num 1)) (Some (noOptions\<lparr>maxRetries := Some (Some 3)\<rparr>)))) = [''chapter'']"
  by (simp add: invoke_def createInterface_def Let_def buildApi_names)

lemma path_simps:
  "path (plan (invoke (createInterface e d apiOpts) a b)) =
   joinPrimitives ''/'' (compact [Str e, callId a])"
  by (simp add: invoke_def createInterface_def makePlan_def Let_def)

lemma numbers: "numberToString 1 = ''1''" "numberToString 0 = ''0''"
  by code_simp+

text \<open>
  C5. \<open>compact([endpoint, id])\<close> drops every falsy id, so the id \<open>0\<close> goes the way
  of no id: \<open>book(1).chapter()\<close> requests \<open>/book/1/chapter\<close>, but
  \<open>book(0).chapter()\<close> requests \<open>/book/chapter\<close>, and \<open>book(0)\<close> requests
  \<open>/book\<close>, the path of the call without an id.
\<close>

theorem zero_id_dropped:
  "chained v1 ''book'' (Num 1) ''chapter'' = Some ''/book/1/chapter''
   \<and> chained v1 ''book'' (Num 0) ''chapter'' = Some ''/book/chapter''
   \<and> path (plan (invoke (createInterface ''/book'' d apiOpts) (Id (Num 0)) baseOptions)) = ''/book''
   \<and> path (plan (invoke (createInterface ''/book'' d apiOpts) Undefined baseOptions)) = ''/book''"
proof -
  have bookInterface: "accessor (createApi v1 noApiOptions) ''book'' =
      Some (createInterface ''/book''
        (ResourceDefinition None None None None (OneApi [(''chapter'', RecordClass)])) noApiOptions)"
    by (simp add: accessor_def createApi_def buildApi_def mapValues_def v1_def)
  have chapterInterface: "accessor (accessors (invoke (createInterface ''/book''
        (ResourceDefinition None None None None (OneApi [(''chapter'', RecordClass)])) noApiOptions)
        (Id i) None)) ''chapter'' =
      Some (createInterface (joinPrimitives ''/'' (compact [Str ''/book'', i]) @ ''/chapter'')
        (ResourceDefinition None (Some True) (Some True) (Some True) (OneBoolean True)) noApiOptions)"
    for i
    by (simp add: accessor_def invoke_def Let_def buildApi_def mapValues_def createInterface_def
        makePlan_def)
  have "chained v1 ''book'' (Num 1) ''chapter'' = Some ''/book/1/chapter''"
    by (simp add: chained_def bookInterface chapterInterface path_simps compact_def joinPrimitives_def numbers)
  moreover have "chained v1 ''book'' (Num 0) ''chapter'' = Some ''/book/chapter''"
    by (simp add: chained_def bookInterface chapterInterface path_simps compact_def joinPrimitives_def)
  moreover have "path (plan (invoke (createInterface ''/book'' d apiOpts) (Id (Num 0)) baseOptions)) = ''/book''"
    "path (plan (invoke (createInterface ''/book'' d apiOpts) Undefined baseOptions)) = ''/book''"
    by (simp_all add: path_simps compact_def joinPrimitives_def)
  ultimately show ?thesis
    by simp
qed

lemma path_with_id:
  "e \<noteq> [] \<Longrightarrow> truthy i \<Longrightarrow> i \<noteq> Null \<Longrightarrow>
   path (plan (invoke (createInterface e d apiOpts) (Id i) baseOptions)) =
     e @ ''/'' @ primitiveToString i"
  by (cases i) (simp_all add: path_simps compact_def joinPrimitives_def)

end
